theory Spec2Isabelle
  imports Complex_Main
begin

section \<open>Arrays and errors\<close>

text \<open>
  The notebooks compute on numpy arrays of floats. Numbers are modelled as
  mathematical reals, a one-dimensional array as a list and a two-dimensional
  array as its column count together with the list of its rows (numpy keeps the
  column count of an array that has no rows). Every exception the code can
  raise is a value of \<open>error\<close>.
\<close>

datatype error = ValueError | IndexError | UnboundLocalError

type_synonym vec = "real list"

record matrix =
  ncols :: nat
  rows :: "vec list"

definition nrows :: "matrix \<Rightarrow> nat" where
  "nrows X = length (rows X)"

text \<open>A numpy array is rectangular: every row has \<open>ncols\<close> entries.\<close>

definition wf_matrix :: "matrix \<Rightarrow> bool" where
  "wf_matrix X = list_all (\<lambda>r. length r = ncols X) (rows X)"

definition zeros :: "nat \<Rightarrow> vec" where
  "zeros d = replicate d 0"

text \<open>\<open>np.dot\<close> of two one-dimensional arrays: shapes that are not aligned raise.\<close>

definition dot :: "vec \<Rightarrow> vec \<Rightarrow> error + real" where
  "dot u v = (if length u = length v then Inr (sum_list (map2 (*) u v)) else Inl ValueError)"

definition vadd :: "vec \<Rightarrow> vec \<Rightarrow> vec" where
  "vadd u v = map2 (+) u v"

definition smul :: "real \<Rightarrow> vec \<Rightarrow> vec" where
  "smul c v = map ((*) c) v"

section \<open>CodingSession1: the Perceptron with bias\<close>

text \<open>
  \<^verbatim>\<open>Perceptron\<close>, the attributes that \<^verbatim>\<open>fit\<close> sets (\<^verbatim>\<open>w_\<close>, \<^verbatim>\<open>b_\<close>, \<^verbatim>\<open>errors_\<close>). The learning rate
  \<^verbatim>\<open>eta\<close> and the pass limit \<^verbatim>\<open>n_iter\<close> are arguments of the model's \<open>fit\<close>.
\<close>

record perceptron =
  w_P :: vec
  b_P :: real
  errors_P :: "nat list"

text \<open>
  \<^verbatim>\<open>net_input\<close> and \<^verbatim>\<open>predict\<close> on one example (a one-dimensional \<^verbatim>\<open>xi\<close>, as
  \<^verbatim>\<open>fit\<close> calls them) and on a feature matrix.
\<close>

definition Perceptron_net_input1 :: "vec \<Rightarrow> real \<Rightarrow> vec \<Rightarrow> error + real" where
  "Perceptron_net_input1 w b x = (case dot x w of Inl e \<Rightarrow> Inl e | Inr d \<Rightarrow> Inr (d + b))"

definition Perceptron_predict1 :: "vec \<Rightarrow> real \<Rightarrow> vec \<Rightarrow> error + real" where
  "Perceptron_predict1 w b x =
     (case Perceptron_net_input1 w b x of Inl e \<Rightarrow> Inl e
      | Inr z \<Rightarrow> Inr (if z \<ge> 0 then 1 else -1))"

definition Perceptron_net_input :: "vec \<Rightarrow> real \<Rightarrow> matrix \<Rightarrow> error + vec" where
  "Perceptron_net_input w b X =
     (if ncols X = length w
      then Inr (map (\<lambda>r. sum_list (map2 (*) r w) + b) (rows X))
      else Inl ValueError)"

definition Perceptron_predict :: "vec \<Rightarrow> real \<Rightarrow> matrix \<Rightarrow> error + vec" where
  "Perceptron_predict w b X =
     (case Perceptron_net_input w b X of Inl e \<Rightarrow> Inl e
      | Inr zs \<Rightarrow> Inr (map (\<lambda>z. if z \<ge> 0 then 1 else -1) zs))"

text \<open>
  One pass of \<^verbatim>\<open>for xi, target in zip(X, y)\<close>: the state is the weight vector,
  the bias and the pass's error counter.
\<close>

fun epoch :: "real \<Rightarrow> (vec \<times> real) list \<Rightarrow> vec \<times> real \<times> nat \<Rightarrow> error + (vec \<times> real \<times> nat)" where
  "epoch eta [] s = Inr s"
| "epoch eta ((xi, target) # rest) (w, b, errors) =
     (case Perceptron_predict1 w b xi of Inl e \<Rightarrow> Inl e
      | Inr p \<Rightarrow>
          if target * p < 0
          then epoch eta rest (vadd w (smul (eta * target) xi), b + eta * target, errors + 1)
          else epoch eta rest (w, b, errors))"

text \<open>
  \<^verbatim>\<open>for _ in range(self.n_iter)\<close>: a pass with no error returns at once, before
  the append; any other pass appends its count.
\<close>

fun fit_loop :: "nat \<Rightarrow> real \<Rightarrow> (vec \<times> real) list \<Rightarrow> perceptron \<Rightarrow> error + perceptron" where
  "fit_loop 0 eta ex P = Inr P"
| "fit_loop (Suc n) eta ex P =
     (case epoch eta ex (w_P P, b_P P, 0) of Inl e \<Rightarrow> Inl e
      | Inr (w, b, errors) \<Rightarrow>
          if errors = 0 then Inr (P\<lparr>w_P := w, b_P := b\<rparr>)
          else fit_loop n eta ex (P\<lparr>w_P := w, b_P := b, errors_P := errors_P P @ [errors]\<rparr>))"

definition Perceptron_fit :: "real \<Rightarrow> int \<Rightarrow> matrix \<Rightarrow> vec \<Rightarrow> error + perceptron" where
  "Perceptron_fit eta n_iter X y =
     fit_loop (nat n_iter) eta (zip (rows X) y)
       \<lparr>w_P = zeros (ncols X), b_P = 0, errors_P = []\<rparr>"

text \<open>
  The contract of section 4.1 of the specification, in its own words: a pass
  scans the examples in order and, for every example where
  \<open>sign(\<langle>w,x\<rangle> + b) \<noteq> y\<close>, applies \<open>w += eta*y*x; b += eta*y\<close> and counts an error;
  the sign of 0 is +1. The third component counts the errors of the pass. The
  inner product, the sign and the update are written out on lists, apart from
  the array operations that model the code.
\<close>

definition inner :: "vec \<Rightarrow> vec \<Rightarrow> real" where
  "inner u v = sum_list (map2 (*) u v)"

definition sign_pm :: "real \<Rightarrow> real" where
  "sign_pm z = (if z \<ge> 0 then 1 else -1)"

fun pass_spec :: "real \<Rightarrow> (vec \<times> real) list \<Rightarrow> vec \<times> real \<times> nat \<Rightarrow> vec \<times> real \<times> nat" where
  "pass_spec eta [] s = s"
| "pass_spec eta ((x, t) # rest) (w, b, c) =
     (if sign_pm (inner w x + b) \<noteq> t
      then pass_spec eta rest (map2 (\<lambda>wi xi. wi + eta * t * xi) w x, b + eta * t, c + 1)
      else pass_spec eta rest (w, b, c))"

text \<open>The state after \<open>j\<close> full passes from zero weights; its counter is the error count of pass \<open>j\<close>.\<close>

definition after_passes :: "real \<Rightarrow> matrix \<Rightarrow> vec \<Rightarrow> nat \<Rightarrow> vec \<times> real \<times> nat" where
  "after_passes eta X y j =
     ((\<lambda>s :: vec \<times> real \<times> nat. pass_spec eta (zip (rows X) y) (fst s, fst (snd s), 0)) ^^ j) (replicate (ncols X) 0, 0, 0)"

section \<open>CodingSession1: the kernel Perceptron\<close>

text \<open>\<^verbatim>\<open>K_standard(u, v) = u.dot(v.T)\<close>. A kernel may raise, as \<^verbatim>\<open>dot\<close> does.\<close>

type_synonym kernel = "vec \<Rightarrow> vec \<Rightarrow> error + real"

definition K_standard :: kernel where
  "K_standard u v = dot u v"

record kernel_perceptron =
  alpha_K :: vec
  b_K :: real
  errors_K :: "nat list"

text \<open>
  Modelled from the spec: the bodies of \<^verbatim>\<open>KernelPerceptron.fit\<close> and
  \<^verbatim>\<open>KernelPerceptron.net_input\<close> are left as exercises in the notebook; only the
  loop skeleton of \<^verbatim>\<open>fit\<close> (the passes, \<^verbatim>\<open>for k in range(0, self.n_)\<close>, the early
  return and the append) and \<^verbatim>\<open>predict\<close> are there, and the model keeps them.
  Section 4.2: the net input of a point is
  \<open>\<Sum>\<^sub>k alpha\<^sub>k * y\<^sub>k * K(x\<^sub>k, x) + b\<close>; on a mistake at example \<open>k\<close> the dual
  coefficient \<open>alpha\<^sub>k\<close> accumulates \<open>eta\<close> (the spec's "increment by 1" at the
  default \<open>eta = 1\<close>) and the bias update mirrors the primal one; the coefficients
  start at zero. Mismatched shapes are rejected before computing (section 7).
\<close>

fun kernel_sum :: "kernel \<Rightarrow> (real \<times> real \<times> vec) list \<Rightarrow> vec \<Rightarrow> error + real" where
  "kernel_sum K [] x = Inr 0"
| "kernel_sum K ((a, yk, xk) # rest) x =
     (case K xk x of Inl e \<Rightarrow> Inl e
      | Inr kv \<Rightarrow>
          (case kernel_sum K rest x of Inl e \<Rightarrow> Inl e
           | Inr s \<Rightarrow> Inr (a * yk * kv + s)))"

definition KernelPerceptron_net_input :: "kernel \<Rightarrow> matrix \<Rightarrow> vec \<Rightarrow> vec \<Rightarrow> real \<Rightarrow> vec \<Rightarrow> error + real" where
  "KernelPerceptron_net_input K X y alpha b x =
     (case kernel_sum K (zip alpha (zip y (rows X))) x of Inl e \<Rightarrow> Inl e
      | Inr s \<Rightarrow> Inr (s + b))"

definition KernelPerceptron_predict :: "kernel \<Rightarrow> matrix \<Rightarrow> vec \<Rightarrow> vec \<Rightarrow> real \<Rightarrow> vec \<Rightarrow> error + real" where
  "KernelPerceptron_predict K X y alpha b x =
     (case KernelPerceptron_net_input K X y alpha b x of Inl e \<Rightarrow> Inl e
      | Inr z \<Rightarrow> Inr (if z \<ge> 0 then 1 else -1))"

fun kernel_epoch :: "kernel \<Rightarrow> real \<Rightarrow> matrix \<Rightarrow> vec \<Rightarrow> nat list \<Rightarrow> vec \<times> real \<times> nat \<Rightarrow> error + (vec \<times> real \<times> nat)" where
  "kernel_epoch K eta X y [] s = Inr s"
| "kernel_epoch K eta X y (k # ks) (alpha, b, errors) =
     (case KernelPerceptron_predict K X y alpha b (rows X ! k) of Inl e \<Rightarrow> Inl e
      | Inr p \<Rightarrow>
          if y ! k * p < 0
          then kernel_epoch K eta X y ks (alpha[k := alpha ! k + eta], b + eta * y ! k, errors + 1)
          else kernel_epoch K eta X y ks (alpha, b, errors))"

fun kernel_fit_loop :: "nat \<Rightarrow> kernel \<Rightarrow> real \<Rightarrow> matrix \<Rightarrow> vec \<Rightarrow> kernel_perceptron \<Rightarrow> error + kernel_perceptron" where
  "kernel_fit_loop 0 K eta X y P = Inr P"
| "kernel_fit_loop (Suc n) K eta X y P =
     (case kernel_epoch K eta X y [0..<nrows X] (alpha_K P, b_K P, 0) of Inl e \<Rightarrow> Inl e
      | Inr (alpha, b, errors) \<Rightarrow>
          if errors = 0 then Inr (P\<lparr>alpha_K := alpha, b_K := b\<rparr>)
          else kernel_fit_loop n K eta X y
                 (P\<lparr>alpha_K := alpha, b_K := b, errors_K := errors_K P @ [errors]\<rparr>))"

definition KernelPerceptron_fit :: "kernel \<Rightarrow> real \<Rightarrow> int \<Rightarrow> matrix \<Rightarrow> vec \<Rightarrow> error + kernel_perceptron" where
  "KernelPerceptron_fit K eta n_iter X y =
     (if length y \<noteq> nrows X then Inl ValueError
      else kernel_fit_loop (nat n_iter) K eta X y
             \<lparr>alpha_K = zeros (nrows X), b_K = 0, errors_K = []\<rparr>)"

text \<open>The weight vector a dual state implies: \<open>\<Sum>\<^sub>k alpha\<^sub>k * y\<^sub>k * x\<^sub>k\<close>.\<close>

fun implied_sum :: "nat \<Rightarrow> (real \<times> real \<times> vec) list \<Rightarrow> vec" where
  "implied_sum d [] = zeros d"
| "implied_sum d ((a, yk, xk) # rest) = vadd (smul (a * yk) xk) (implied_sum d rest)"

definition implied_w :: "matrix \<Rightarrow> vec \<Rightarrow> vec \<Rightarrow> vec" where
  "implied_w X y alpha = implied_sum (ncols X) (zip alpha (zip y (rows X)))"

definition primal_of :: "matrix \<Rightarrow> vec \<Rightarrow> kernel_perceptron \<Rightarrow> perceptron" where
  "primal_of X y S = \<lparr>w_P = implied_w X y (alpha_K S), b_P = b_K S, errors_P = errors_K S\<rparr>"

section \<open>CodingSession2: AdaBoost\<close>

text \<open>
  A fitted weak learner is used only through \<^verbatim>\<open>predict(X)\<close>, which classifies
  each row of \<^verbatim>\<open>X\<close>: a learner is a function on rows. The weak-learner factory
  (\<^verbatim>\<open>DecisionStumpLearner\<close> by default, a call into scikit-learn) takes the data
  and the current sample weights.
\<close>

type_synonym learner = "vec \<Rightarrow> real"

type_synonym weak_learner = "matrix \<Rightarrow> vec \<Rightarrow> vec \<Rightarrow> learner"

record adaboost =
  T_A :: int
  w_A :: vec
  learners_A :: "learner list"

text \<open>
  \<^verbatim>\<open>AdaBoost.net_input\<close> and \<^verbatim>\<open>AdaBoost.predict\<close>, as the notebook has them: the
  loop reads \<^verbatim>\<open>self.w[t]\<close> and \<^verbatim>\<open>self.learners[t]\<close> for \<^verbatim>\<open>t\<close> in \<^verbatim>\<open>range(0, self.T)\<close>.
\<close>

fun AdaBoost_net_input_loop :: "adaboost \<Rightarrow> matrix \<Rightarrow> nat list \<Rightarrow> vec \<Rightarrow> error + vec" where
  "AdaBoost_net_input_loop A X [] input = Inr input"
| "AdaBoost_net_input_loop A X (t # ts) input =
     (if t < length (w_A A) \<and> t < length (learners_A A)
      then AdaBoost_net_input_loop A X ts
             (vadd input (smul (w_A A ! t) (map (learners_A A ! t) (rows X))))
      else Inl IndexError)"

definition AdaBoost_net_input :: "adaboost \<Rightarrow> matrix \<Rightarrow> error + vec" where
  "AdaBoost_net_input A X = AdaBoost_net_input_loop A X [0..<nat (T_A A)] (zeros (nrows X))"

definition AdaBoost_predict :: "adaboost \<Rightarrow> matrix \<Rightarrow> error + vec" where
  "AdaBoost_predict A X =
     (case AdaBoost_net_input A X of Inl e \<Rightarrow> Inl e
      | Inr zs \<Rightarrow> Inr (map (\<lambda>z. if z \<ge> 0 then 1 else -1) zs))"

text \<open>
  Modelled from the spec: the body of the round loop of \<^verbatim>\<open>AdaBoost.fit\<close> is left
  as an exercise in the notebook; the initialisation (\<^verbatim>\<open>self.w = np.zeros(self.T)\<close>,
  \<^verbatim>\<open>mu = np.ones(n)/n\<close>, \<^verbatim>\<open>self.learners = []\<close>) and the loop header are there.
  Section 4.3: each round requests a weak learner for the current weights,
  computes its weighted error \<open>\<epsilon>\<^sub>t = \<Sum>\<^sub>i mu\<^sub>i 1[h\<^sub>t(x\<^sub>i) \<noteq> y\<^sub>i]\<close>, the learner weight
  \<open>w\<^sub>t = 0.5 * ln(1/\<epsilon>\<^sub>t - 1)\<close>, reweights \<open>mu\<^sub>i *= exp(-w\<^sub>t * y\<^sub>i * h\<^sub>t(x\<^sub>i))\<close>,
  renormalises to sum 1 and stores \<open>(h\<^sub>t, w\<^sub>t)\<close>. A weighted error of 0 or 1 is the
  singular logarithm of sections 4.3 and 7: the round fails. Mismatched shapes
  are rejected (section 7).
\<close>

datatype fit_error = SingularLogarithm | ShapeMismatch | NegativeDimensions

definition weighted_error :: "vec \<Rightarrow> vec \<Rightarrow> vec \<Rightarrow> real" where
  "weighted_error mu y h =
     sum_list (map (\<lambda>(m, yi, hi). if hi \<noteq> yi then m else 0) (zip mu (zip y h)))"

definition learner_weight :: "real \<Rightarrow> real" where
  "learner_weight eps = 0.5 * ln (1 / eps - 1)"

definition reweight :: "real \<Rightarrow> vec \<Rightarrow> vec \<Rightarrow> vec \<Rightarrow> vec" where
  "reweight wt mu y h = map (\<lambda>(m, yi, hi). m * exp (- wt * yi * hi)) (zip mu (zip y h))"

definition renormalize :: "vec \<Rightarrow> vec" where
  "renormalize mu = map (\<lambda>m. m / sum_list mu) mu"

definition AdaBoost_round :: "weak_learner \<Rightarrow> matrix \<Rightarrow> vec \<Rightarrow> nat \<Rightarrow> adaboost \<times> vec \<Rightarrow> fit_error + adaboost \<times> vec" where
  "AdaBoost_round weak X y t s =
     (let A = fst s; mu = snd s in
      if length y \<noteq> nrows X then Inl ShapeMismatch
      else
        let h = weak X y mu;
            preds = map h (rows X);
            eps = weighted_error mu y preds
        in if eps \<le> 0 \<or> eps \<ge> 1 then Inl SingularLogarithm
           else
             let wt = learner_weight eps
             in Inr (A\<lparr>w_A := (w_A A)[t := wt], learners_A := learners_A A @ [h]\<rparr>,
                     renormalize (reweight wt mu y preds)))"

fun AdaBoost_rounds :: "weak_learner \<Rightarrow> matrix \<Rightarrow> vec \<Rightarrow> nat list \<Rightarrow> adaboost \<times> vec \<Rightarrow> fit_error + adaboost \<times> vec" where
  "AdaBoost_rounds weak X y [] s = Inr s"
| "AdaBoost_rounds weak X y (t # ts) s =
     (case AdaBoost_round weak X y t s of Inl e \<Rightarrow> Inl e
      | Inr s' \<Rightarrow> AdaBoost_rounds weak X y ts s')"

text \<open>
  \<^verbatim>\<open>fit\<close> run for its first \<open>r\<close> rounds: the fitted object together with the
  local sample weights \<^verbatim>\<open>mu\<close>. \<^verbatim>\<open>np.zeros(self.T)\<close> raises for a negative \<^verbatim>\<open>T\<close>.
\<close>

definition AdaBoost_init :: "int \<Rightarrow> matrix \<Rightarrow> adaboost \<times> vec" where
  "AdaBoost_init T X =
     (\<lparr>T_A = T, w_A = zeros (nat T), learners_A = []\<rparr>,
      replicate (nrows X) (1 / real (nrows X)))"

definition AdaBoost_fit_upto :: "nat \<Rightarrow> weak_learner \<Rightarrow> int \<Rightarrow> matrix \<Rightarrow> vec \<Rightarrow> fit_error + adaboost \<times> vec" where
  "AdaBoost_fit_upto r weak T X y =
     (if T < 0 then Inl NegativeDimensions
      else AdaBoost_rounds weak X y [0..<min r (nat T)] (AdaBoost_init T X))"

definition AdaBoost_fit :: "weak_learner \<Rightarrow> int \<Rightarrow> matrix \<Rightarrow> vec \<Rightarrow> fit_error + adaboost" where
  "AdaBoost_fit weak T X y =
     (case AdaBoost_fit_upto (nat T) weak T X y of Inl e \<Rightarrow> Inl e | Inr s \<Rightarrow> Inr (fst s))"

text \<open>
  The sample weights lie in the probability simplex over the \<open>n\<close> training
  indices; the weights \<open>fit\<close> works with are moreover strictly positive.
\<close>

definition simplex :: "nat \<Rightarrow> vec \<Rightarrow> bool" where
  "simplex n mu = (length mu = n \<and> sum_list mu = 1 \<and> list_all (\<lambda>m. 0 \<le> m) mu)"

definition positive :: "vec \<Rightarrow> bool" where
  "positive mu = list_all (\<lambda>m. 0 < m) mu"

text \<open>
  Round \<open>t\<close> of a run that ended in the object \<open>A\<close>, in the words of section 4.3:
  the run reaches round \<open>t\<close> with some weights \<open>mu_t\<close> and completes it; the learner
  stored at \<open>t\<close> is the one requested for \<open>mu_t\<close>; its stored weight is
  \<open>0.5 * ln(1/\<epsilon>\<^sub>t - 1)\<close> for its weighted error \<open>\<epsilon>\<^sub>t\<close> under \<open>mu_t\<close>; and the next
  weights are \<open>mu_t\<^sub>i * exp(-w\<^sub>t * y\<^sub>i * h\<^sub>t(x\<^sub>i))\<close> divided by their sum, so they sum
  to 1.
\<close>

definition round_ok :: "weak_learner \<Rightarrow> int \<Rightarrow> matrix \<Rightarrow> vec \<Rightarrow> adaboost \<Rightarrow> nat \<Rightarrow> bool" where
  "round_ok weak T X y A t =
     (\<exists>A_t mu_t A' mu'.
         AdaBoost_fit_upto t weak T X y = Inr (A_t, mu_t)
       \<and> AdaBoost_fit_upto (Suc t) weak T X y = Inr (A', mu')
       \<and> learners_A A ! t = weak X y mu_t
       \<and> w_A A ! t = 0.5 * ln (1 / weighted_error mu_t y (map (learners_A A ! t) (rows X)) - 1)
       \<and> (\<forall>i < nrows X. mu' ! i =
             mu_t ! i * exp (- (w_A A ! t) * y ! i * (learners_A A ! t) (rows X ! i))
             / (\<Sum>j < nrows X. mu_t ! j * exp (- (w_A A ! t) * y ! j * (learners_A A ! t) (rows X ! j))))
       \<and> length mu' = nrows X \<and> sum_list mu' = 1)"

section \<open>CodingSession3: the two-layer network\<close>

definition ebind :: "error + 'a \<Rightarrow> ('a \<Rightarrow> error + 'b) \<Rightarrow> error + 'b" where
  "ebind m f = (case m of Inl e \<Rightarrow> Inl e | Inr a \<Rightarrow> f a)"

text \<open>The first error of a sequence of results, or all their values.\<close>

fun collect :: "(error + 'a) list \<Rightarrow> error + 'a list" where
  "collect [] = Inr []"
| "collect (Inl e # rest) = Inl e"
| "collect (Inr a # rest) = (case collect rest of Inl e \<Rightarrow> Inl e | Inr as \<Rightarrow> Inr (a # as))"

text \<open>
  \<^verbatim>\<open>int_to_onehot\<close>: \<^verbatim>\<open>ary[i, val] = 1\<close> follows Python indexing, so a negative
  label counts from the last column and a label outside
  \<open>[-num_labels, num_labels)\<close> raises.
\<close>

definition onehot_row :: "nat \<Rightarrow> int \<Rightarrow> error + vec" where
  "onehot_row num_labels val =
     (let j = (if val < 0 then val + int num_labels else val)
      in if 0 \<le> j \<and> j < int num_labels
         then Inr ((replicate num_labels 0)[nat j := 1])
         else Inl IndexError)"

definition int_to_onehot :: "int list \<Rightarrow> nat \<Rightarrow> error + matrix" where
  "int_to_onehot y num_labels =
     (case collect (map (onehot_row num_labels) y) of Inl e \<Rightarrow> Inl e
      | Inr rs \<Rightarrow> Inr \<lparr>ncols = num_labels, rows = rs\<rparr>)"

text \<open>
  Array arithmetic. The elementwise operations of two arrays need equal shapes
  here (numpy would also broadcast a dimension of size one; the network never
  relies on that for two matrices); a scalar applies to every entry.
\<close>

definition elementwise :: "(real \<Rightarrow> real \<Rightarrow> real) \<Rightarrow> matrix \<Rightarrow> matrix \<Rightarrow> error + matrix" where
  "elementwise f A B =
     (if nrows A = nrows B \<and> ncols A = ncols B
      then Inr \<lparr>ncols = ncols A, rows = map2 (map2 f) (rows A) (rows B)\<rparr>
      else Inl ValueError)"

definition mat_map :: "(real \<Rightarrow> real) \<Rightarrow> matrix \<Rightarrow> matrix" where
  "mat_map f A = \<lparr>ncols = ncols A, rows = map (map f) (rows A)\<rparr>"

definition mat_T :: "matrix \<Rightarrow> matrix" where
  "mat_T A = \<lparr>ncols = nrows A, rows = map (\<lambda>j. map (\<lambda>r. r ! j) (rows A)) [0..<ncols A]\<rparr>"

definition mat_dot :: "matrix \<Rightarrow> matrix \<Rightarrow> error + matrix" where
  "mat_dot A B =
     (if ncols A = nrows B
      then Inr \<lparr>ncols = ncols B,
                rows = map (\<lambda>a. map (\<lambda>j. sum_list (map2 (\<lambda>ak bk. ak * bk ! j) a (rows B)))
                                  [0..<ncols B])
                           (rows A)\<rparr>
      else Inl ValueError)"

definition sum_axis0 :: "matrix \<Rightarrow> vec" where
  "sum_axis0 A = map (\<lambda>j. sum_list (map (\<lambda>r. r ! j) (rows A))) [0..<ncols A]"

text \<open>\<^verbatim>\<open>sigmoid\<close>, the activation of both layers.\<close>

definition sigmoid :: "real \<Rightarrow> real" where
  "sigmoid z = 1 / (1 + exp (- z))"

record NeuralNetMLP =
  num_classes :: nat
  weight_in :: matrix
  bias_in :: vec
  weight_out :: matrix
  bias_out :: vec

text \<open>\<^verbatim>\<open>NeuralNetMLP.backward\<close>, statement by statement.\<close>

definition backward :: "NeuralNetMLP \<Rightarrow> matrix \<Rightarrow> matrix \<Rightarrow> matrix \<Rightarrow> int list \<Rightarrow> error + matrix \<times> vec \<times> matrix \<times> vec" where
  "backward net x o_h o_out y =
     ebind (int_to_onehot y (num_classes net)) (\<lambda>y_onehot.
     ebind (elementwise (-) o_out y_onehot) (\<lambda>diff.
     let d_loss__d_o_out = mat_map (\<lambda>v. 2 * v / real (length y)) diff in
     ebind (elementwise (*) o_out (mat_map (\<lambda>v. 1 - v) o_out)) (\<lambda>d_o_out__d_z_out.
     ebind (elementwise (*) d_loss__d_o_out d_o_out__d_z_out) (\<lambda>delta_out.
     let d_z_out__dw_out = o_h in
     ebind (mat_dot (mat_T delta_out) d_z_out__dw_out) (\<lambda>d_loss__dw_out.
     let d_loss__db_out = sum_axis0 delta_out;
         d_z_out__o_h = weight_out net in
     ebind (mat_dot delta_out d_z_out__o_h) (\<lambda>d_loss__o_h.
     ebind (elementwise (*) o_h (mat_map (\<lambda>v. 1 - v) o_h)) (\<lambda>d_o_h__d_z_h.
     let d_z_h__d_w_h = x in
     ebind (elementwise (*) d_loss__o_h d_o_h__d_z_h) (\<lambda>delta_h.
     ebind (mat_dot (mat_T delta_h) d_z_h__d_w_h) (\<lambda>d_loss__d_w_h.
     let d_loss__d_b_h = sum_axis0 delta_h in
     Inr (d_loss__dw_out, d_loss__db_out, d_loss__d_w_h, d_loss__d_b_h))))))))))"

text \<open>
  The gradients in the words of section 4.4 of the specification, entry by
  entry: \<open>delta_out = 2*(o_out - onehot)/batch_size * o_out*(1 - o_out)\<close>, and the
  hidden delta propagates \<open>delta_out\<close> back through \<open>W_out\<close> and the hidden
  sigmoid derivative \<open>o_h*(1 - o_h)\<close>. \<open>has_shape A n m\<close>: a rectangular array
  of \<open>n\<close> rows and \<open>m\<close> columns.
\<close>

definition entry :: "matrix \<Rightarrow> nat \<Rightarrow> nat \<Rightarrow> real" where
  "entry A i j = rows A ! i ! j"

definition has_shape :: "matrix \<Rightarrow> nat \<Rightarrow> nat \<Rightarrow> bool" where
  "has_shape A n m = (nrows A = n \<and> ncols A = m \<and> wf_matrix A)"

definition onehot :: "int \<Rightarrow> nat \<Rightarrow> real" where
  "onehot label c = (if label = int c then 1 else 0)"

definition delta_out_spec :: "matrix \<Rightarrow> int list \<Rightarrow> nat \<Rightarrow> nat \<Rightarrow> real" where
  "delta_out_spec o_out y i c =
     2 * (entry o_out i c - onehot (y ! i) c) / real (length y)
       * (entry o_out i c * (1 - entry o_out i c))"

definition delta_h_spec :: "NeuralNetMLP \<Rightarrow> matrix \<Rightarrow> matrix \<Rightarrow> int list \<Rightarrow> nat \<Rightarrow> nat \<Rightarrow> real" where
  "delta_h_spec net o_h o_out y i h =
     (\<Sum>c < num_classes net. delta_out_spec o_out y i c * entry (weight_out net) c h)
       * (entry o_h i h * (1 - entry o_h i h))"

text \<open>
  \<^verbatim>\<open>NeuralNetMLP.forward\<close>. The hidden layer is the notebook's:
  \<^verbatim>\<open>a_h = np.dot(x, self.weight_in.T) + self.bias_in\<close>, \<^verbatim>\<open>o_h = sigmoid(a_h)\<close>.
  Modelled from the spec: the two statements of the output layer are left as
  exercises in the notebook; section 4.4 gives them as output pre-activation
  \<open>hidden \<cdot> W_out\<^sup>T + b_out\<close> and output activation sigmoid. Adding a bias
  vector to a matrix adds it to every row; the vector has one entry per
  column, as the biases of the network do.
\<close>

definition add_bias :: "matrix \<Rightarrow> vec \<Rightarrow> error + matrix" where
  "add_bias A b =
     (if length b = ncols A
      then Inr \<lparr>ncols = ncols A, rows = map (\<lambda>r. map2 (+) r b) (rows A)\<rparr>
      else Inl ValueError)"

definition NeuralNetMLP_forward :: "NeuralNetMLP \<Rightarrow> matrix \<Rightarrow> error + matrix \<times> matrix" where
  "NeuralNetMLP_forward net x =
     ebind (mat_dot x (mat_T (weight_in net))) (\<lambda>xw.
     ebind (add_bias xw (bias_in net)) (\<lambda>a_h.
     let o_h = mat_map sigmoid a_h in
     ebind (mat_dot o_h (mat_T (weight_out net))) (\<lambda>hw.
     ebind (add_bias hw (bias_out net)) (\<lambda>a_out.
     let o_out = mat_map sigmoid a_out in
     Inr (o_h, o_out)))))"

section \<open>CodingSession3: minibatches and evaluation\<close>

text \<open>
  Python's \<^verbatim>\<open>range(start, stop, step)\<close>: a zero step raises, and the length is
  the one CPython computes.
\<close>

definition py_range :: "int \<Rightarrow> int \<Rightarrow> int \<Rightarrow> error + int list" where
  "py_range start stop step =
     (if step = 0 then Inl ValueError
      else if step > 0 \<and> start < stop
      then Inr (map (\<lambda>k. start + int k * step) [0..<nat ((stop - start - 1) div step + 1)])
      else if step < 0 \<and> stop < start
      then Inr (map (\<lambda>k. start + int k * step) [0..<nat ((start - stop - 1) div (- step) + 1)])
      else Inr [])"

text \<open>
  Indexing with an array of indices: \<^verbatim>\<open>X[batch_idx]\<close> and \<^verbatim>\<open>y[batch_idx]\<close>. The
  indices are a shuffle of \<^verbatim>\<open>arange(X.shape[0])\<close>, so they are in range for \<^verbatim>\<open>X\<close>;
  for \<^verbatim>\<open>y\<close> an index past the end raises.
\<close>

definition take_rows :: "matrix \<Rightarrow> nat list \<Rightarrow> matrix" where
  "take_rows X idx = \<lparr>ncols = ncols X, rows = map (\<lambda>i. rows X ! i) idx\<rparr>"

definition index_vec :: "'l list \<Rightarrow> nat list \<Rightarrow> error + 'l list" where
  "index_vec y idx =
     (if list_all (\<lambda>i. i < length y) idx then Inr (map (\<lambda>i. y ! i) idx) else Inl IndexError)"

text \<open>
  \<^verbatim>\<open>minibatch_generator\<close>. The result of \<^verbatim>\<open>np.random.shuffle(indices)\<close> is the
  argument \<open>indices\<close>. The generator is the list of what its successive
  \<^verbatim>\<open>next\<close> calls give: a batch, or the exception that ends it.
\<close>

definition minibatch_generator :: "nat list \<Rightarrow> matrix \<Rightarrow> 'l list \<Rightarrow> int \<Rightarrow> (error + matrix \<times> 'l list) list" where
  "minibatch_generator indices X y minibatch_size =
     (case py_range 0 (int (length indices) - minibatch_size + 1) minibatch_size of
        Inl e \<Rightarrow> [Inl e]
      | Inr starts \<Rightarrow>
          map (\<lambda>start_idx.
                 let batch_idx = take (nat minibatch_size) (drop (nat start_idx) indices)
                 in case index_vec y batch_idx of Inl e \<Rightarrow> Inl e
                    | Inr ys \<Rightarrow> Inr (take_rows X batch_idx, ys))
              starts)"

text \<open>A shuffle of \<^verbatim>\<open>arange(n)\<close> is a permutation of \<open>0..n-1\<close>.\<close>

definition shuffled :: "nat \<Rightarrow> nat list \<Rightarrow> bool" where
  "shuffled n indices = (distinct indices \<and> set indices = {0..<n})"

text \<open>\<^verbatim>\<open>np.argmax\<close> of a row: the first index of the largest entry; an empty row raises.\<close>

fun argmax_loop :: "vec \<Rightarrow> nat \<Rightarrow> nat \<Rightarrow> real \<Rightarrow> nat" where
  "argmax_loop [] i best bv = best"
| "argmax_loop (v # vs) i best bv =
     (if v > bv then argmax_loop vs (i + 1) i v else argmax_loop vs (i + 1) best bv)"

definition argmax :: "vec \<Rightarrow> error + nat" where
  "argmax v = (case v of [] \<Rightarrow> Inl ValueError | v0 # vs \<Rightarrow> Inr (argmax_loop vs 1 0 v0))"

definition mat_mean :: "matrix \<Rightarrow> real" where
  "mat_mean A = sum_list (map sum_list (rows A)) / real (nrows A * ncols A)"

text \<open>
  \<^verbatim>\<open>compute_mse_and_acc\<close>. The network enters through its \<^verbatim>\<open>forward\<close> method only
  (part of which the notebook leaves as an exercise), so \<open>forward\<close> is an
  argument. The loop variable \<^verbatim>\<open>i\<close> of \<^verbatim>\<open>enumerate\<close> is unbound until the first
  iteration: \<open>None\<close>.
\<close>

type_synonym forward_fn = "matrix \<Rightarrow> error + matrix \<times> matrix"

definition mse_acc_step :: "forward_fn \<Rightarrow> nat \<Rightarrow> matrix \<times> int list \<Rightarrow> real \<times> nat \<times> nat \<Rightarrow> error + real \<times> nat \<times> nat" where
  "mse_acc_step forward num_labels batch s =
     (let features = fst batch; targets = snd batch;
          mse = fst s; correct_pred = fst (snd s); num_examples = snd (snd s) in
      ebind (forward features) (\<lambda>out.
      let probas = snd out in
      ebind (collect (map argmax (rows probas))) (\<lambda>predicted_labels.
      ebind (int_to_onehot targets num_labels) (\<lambda>onehot_targets.
      ebind (elementwise (-) onehot_targets probas) (\<lambda>d.
      let loss = mat_mean (mat_map (\<lambda>v. v ^ 2) d) in
      Inr (mse + loss,
           correct_pred + length (filter (\<lambda>(p, t). int p = t) (zip predicted_labels targets)),
           num_examples + length targets))))))"

fun mse_acc_loop :: "forward_fn \<Rightarrow> nat \<Rightarrow> (error + matrix \<times> int list) list \<Rightarrow> nat \<Rightarrow> (real \<times> nat \<times> nat) \<times> nat option \<Rightarrow> error + (real \<times> nat \<times> nat) \<times> nat option" where
  "mse_acc_loop forward num_labels [] i s = Inr s"
| "mse_acc_loop forward num_labels (Inl e # rest) i s = Inl e"
| "mse_acc_loop forward num_labels (Inr batch # rest) i s =
     (case mse_acc_step forward num_labels batch (fst s) of Inl e \<Rightarrow> Inl e
      | Inr s' \<Rightarrow> mse_acc_loop forward num_labels rest (i + 1) (s', Some i))"

definition compute_mse_and_acc :: "forward_fn \<Rightarrow> nat list \<Rightarrow> matrix \<Rightarrow> int list \<Rightarrow> nat \<Rightarrow> int \<Rightarrow> error + real \<times> real" where
  "compute_mse_and_acc forward indices X y num_labels minibatch_size =
     (case mse_acc_loop forward num_labels (minibatch_generator indices X y minibatch_size) 0
             ((0, 0, 0), None) of
        Inl e \<Rightarrow> Inl e
      | Inr (s, i) \<Rightarrow>
          (case i of None \<Rightarrow> Inl UnboundLocalError
           | Some i \<Rightarrow>
               Inr (fst s / (real i + 1), real (fst (snd s)) / real (snd (snd s)))))"

section \<open>The Perceptron: passes, updates and early convergence\<close>

lemma dot_same: "length u = length v \<Longrightarrow> dot u v = Inr (inner u v)"
  by (simp add: dot_def inner_def)

lemma inner_commute: "inner u v = inner v u"
  unfolding inner_def
proof (induction u arbitrary: v)
  case Nil
  then show ?case by simp
next
  case (Cons a u)
  then show ?case by (cases v) (simp_all add: mult.commute)
qed

lemma predict1_sign:
  "length x = length w \<Longrightarrow> Perceptron_predict1 w b x = Inr (sign_pm (inner w x + b))"
  by (simp add: Perceptron_predict1_def Perceptron_net_input1_def dot_same sign_pm_def
      inner_commute [of x w])

lemma mistake_iff:
  "t \<in> {1, -1} \<Longrightarrow> (t * sign_pm z < 0) = (sign_pm z \<noteq> t)"
  by (auto simp: sign_pm_def)

lemma length_vadd_smul: "length x = length w \<Longrightarrow> length (vadd w (smul c x)) = length w"
  by (simp add: vadd_def smul_def)

lemma vadd_smul_map2: "vadd w (smul c x) = map2 (\<lambda>wi xi. wi + c * xi) w x"
  by (rule nth_equalityI) (simp_all add: vadd_def smul_def)

lemma upt_from_1_Suc: "[1..<Suc (Suc k)] = 1 # map Suc [1..<Suc k]"
  by (simp add: map_Suc_upt upt_conv_Cons del: upt_Suc)

lemma epoch_pass_spec:
  "\<forall>e \<in> set ex. length (fst e) = length w \<and> snd e \<in> {1, -1} \<Longrightarrow>
   epoch eta ex (w, b, c) = Inr (pass_spec eta ex (w, b, c))
   \<and> length (fst (pass_spec eta ex (w, b, c))) = length w"
proof (induction ex arbitrary: w b c)
  case Nil
  then show ?case by simp
next
  case (Cons e ex)
  obtain x t where e: "e = (x, t)" by (cases e)
  from Cons.prems e have len: "length x = length w" and t: "t \<in> {1, -1}" by auto
  let ?w' = "vadd w (smul (eta * t) x)"
  have len': "length ?w' = length w" using len by (rule length_vadd_smul)
  have rest: "\<forall>e \<in> set ex. length (fst e) = length ?w' \<and> snd e \<in> {1, -1}"
    using Cons.prems len' by simp
  have rest0: "\<forall>e \<in> set ex. length (fst e) = length w \<and> snd e \<in> {1, -1}"
    using Cons.prems by simp
  show ?case
    using Cons.IH [OF rest, of "b + eta * t" "c + 1"] Cons.IH [OF rest0, of b c] len'
    by (simp add: e predict1_sign [OF len] mistake_iff [OF t] vadd_smul_map2)
qed

lemma fit_loop_passes:
  fixes F :: "vec \<times> real \<times> nat \<Rightarrow> vec \<times> real \<times> nat"
  assumes F: "F = (\<lambda>s. pass_spec eta ex (fst s, fst (snd s), 0))"
    and ex: "\<forall>e \<in> set ex. length (fst e) = d \<and> snd e \<in> {1, -1}"
    and len: "length (w_P P) = d"
  shows "\<exists>k P'. fit_loop n eta ex P = Inr P' \<and> k \<le> n
      \<and> w_P P' = fst ((F ^^ k) (w_P P, b_P P, c))
      \<and> b_P P' = fst (snd ((F ^^ k) (w_P P, b_P P, c)))
      \<and> (\<forall>j. 1 \<le> j \<and> j < k \<longrightarrow> 0 < snd (snd ((F ^^ j) (w_P P, b_P P, c))))
      \<and> (k < n \<longrightarrow> 1 \<le> k \<and> snd (snd ((F ^^ k) (w_P P, b_P P, c))) = 0)
      \<and> errors_P P' = errors_P P
            @ filter (\<lambda>e. e \<noteq> 0) (map (\<lambda>j. snd (snd ((F ^^ j) (w_P P, b_P P, c)))) [1..<Suc k])"
  using len
proof (induction n arbitrary: P c)
  case 0
  show ?case by (rule exI [of _ 0]) simp
next
  case (Suc n)
  let ?s0 = "(w_P P, b_P P, c)"
  obtain w1 b1 c1 where p: "pass_spec eta ex (w_P P, b_P P, 0) = (w1, b1, c1)"
    by (cases "pass_spec eta ex (w_P P, b_P P, 0)")
  have exw: "\<forall>e \<in> set ex. length (fst e) = length (w_P P) \<and> snd e \<in> {1, -1}"
    using ex Suc.prems by simp
  have ep: "epoch eta ex (w_P P, b_P P, 0) = Inr (w1, b1, c1)" and len1: "length w1 = d"
    using epoch_pass_spec [OF exw, of eta "b_P P" 0] p Suc.prems by simp_all
  have Fs0: "F ?s0 = (w1, b1, c1)" by (simp add: F p)
  have shift: "(F ^^ Suc j) ?s0 = (F ^^ j) (w1, b1, c1)" for j
    by (simp only: funpow_Suc_right o_apply Fs0)
  show ?case
  proof (cases "c1 = 0")
    case True
    have "fit_loop (Suc n) eta ex P = Inr (P\<lparr>w_P := w1, b_P := b1\<rparr>)"
      by (simp add: ep True)
    then show ?thesis
      by (intro exI [of _ "Suc 0"] exI [of _ "P\<lparr>w_P := w1, b_P := b1\<rparr>"])
         (simp add: Fs0 True upt_from_1_Suc del: upt_Suc)
  next
    case False
    let ?P1 = "P\<lparr>w_P := w1, b_P := b1, errors_P := errors_P P @ [c1]\<rparr>"
    have step: "fit_loop (Suc n) eta ex P = fit_loop n eta ex ?P1"
      by (simp add: ep False)
    have "length (w_P ?P1) = d" by (simp add: len1)
    from Suc.IH [OF this, of c1]
    obtain k P' where k: "fit_loop n eta ex ?P1 = Inr P'" "k \<le> n"
      "w_P P' = fst ((F ^^ k) (w1, b1, c1))"
      "b_P P' = fst (snd ((F ^^ k) (w1, b1, c1)))"
      "\<forall>j. 1 \<le> j \<and> j < k \<longrightarrow> 0 < snd (snd ((F ^^ j) (w1, b1, c1)))"
      "k < n \<longrightarrow> 1 \<le> k \<and> snd (snd ((F ^^ k) (w1, b1, c1))) = 0"
      "errors_P P' = errors_P ?P1
            @ filter (\<lambda>e. e \<noteq> 0) (map (\<lambda>j. snd (snd ((F ^^ j) (w1, b1, c1)))) [1..<Suc k])"
      by auto
    have early: "\<forall>j. 1 \<le> j \<and> j < Suc k \<longrightarrow> 0 < snd (snd ((F ^^ j) ?s0))"
    proof (intro allI impI)
      fix j assume j: "1 \<le> j \<and> j < Suc k"
      then obtain i where i: "j = Suc i" by (cases j) auto
      show "0 < snd (snd ((F ^^ j) ?s0))"
      proof (cases i)
        case 0
        then show ?thesis using False by (simp add: i Fs0)
      next
        case (Suc i')
        then have "1 \<le> i \<and> i < k" using j i by simp
        then show ?thesis using k(5) by (simp only: i shift)
      qed
    qed
    have a: "fit_loop (Suc n) eta ex P = Inr P'" by (simp only: step k(1))
    have b: "Suc k \<le> Suc n" using k(2) by simp
    have c: "w_P P' = fst ((F ^^ Suc k) ?s0)" by (simp only: shift k(3))
    have d: "b_P P' = fst (snd ((F ^^ Suc k) ?s0))" by (simp only: shift k(4))
    have e: "Suc k < Suc n \<longrightarrow> 1 \<le> Suc k \<and> snd (snd ((F ^^ Suc k) ?s0)) = 0"
      using k(6) by (simp only: shift) simp
    have "map (\<lambda>j. snd (snd ((F ^^ j) ?s0))) [1..<Suc (Suc k)]
        = c1 # map (\<lambda>j. snd (snd ((F ^^ j) (w1, b1, c1)))) [1..<Suc k]"
      by (simp only: upt_from_1_Suc list.map map_map o_def shift) (simp add: Fs0)
    then have f: "errors_P P' = errors_P P
            @ filter (\<lambda>e. e \<noteq> 0) (map (\<lambda>j. snd (snd ((F ^^ j) ?s0))) [1..<Suc (Suc k)])"
      using k(7) False by simp
    from a b c d early e f show ?thesis by blast
  qed
qed

text \<open>
  Claim C1. On a rectangular feature matrix and labels in \<open>{+1, -1}\<close>,
  \<open>Perceptron_fit\<close> performs \<open>k \<le> n_iter\<close> full passes over the examples in their
  given order, started from \<open>w = 0\<close>, \<open>b = 0\<close>, and returns the weights and bias
  reached after them. Within a pass exactly the examples whose current
  prediction differs from their label are updated with \<open>w += eta*y*x\<close>,
  \<open>b += eta*y\<close> and counted (\<open>pass_spec\<close>). Every pass before the last made at
  least one update, and training stops before \<open>n_iter\<close> passes only after a pass
  that made no update. That no pass follows a pass without update shows in
  \<open>errors_\<close>: it holds the counts of passes \<open>1\<close> to \<open>k - 1\<close> in order, then the
  count of pass \<open>k\<close> when that is not zero, and nothing else.
\<close>

theorem Perceptron_fit_passes:
  assumes "wf_matrix X" and "set y \<subseteq> {1, -1}"
  shows "\<exists>k P. Perceptron_fit eta n_iter X y = Inr P
      \<and> k \<le> nat n_iter
      \<and> after_passes eta X y 0 = (replicate (ncols X) 0, 0, 0)
      \<and> w_P P = fst (after_passes eta X y k)
      \<and> b_P P = fst (snd (after_passes eta X y k))
      \<and> (\<forall>j. 1 \<le> j \<and> j < k \<longrightarrow> 0 < snd (snd (after_passes eta X y j)))
      \<and> (k < nat n_iter \<longrightarrow> 1 \<le> k \<and> snd (snd (after_passes eta X y k)) = 0)
      \<and> errors_P P = map (\<lambda>j. snd (snd (after_passes eta X y j))) [1..<k]
            @ (if k = 0 \<or> snd (snd (after_passes eta X y k)) = 0 then []
               else [snd (snd (after_passes eta X y k))])"
proof -
  let ?ex = "zip (rows X) y"
  let ?P0 = "\<lparr>w_P = zeros (ncols X), b_P = 0, errors_P = []\<rparr>"
  let ?errs = "\<lambda>j. snd (snd (after_passes eta X y j))"
  have ex: "\<forall>e \<in> set ?ex. length (fst e) = ncols X \<and> snd e \<in> {1, -1}"
  proof
    fix e assume "e \<in> set ?ex"
    then have "(fst e, snd e) \<in> set ?ex" by simp
    then have "fst e \<in> set (rows X)" and "snd e \<in> set y"
      by (rule set_zip_leftD, rule set_zip_rightD)
    then show "length (fst e) = ncols X \<and> snd e \<in> {1, -1}"
      using assms by (auto simp: wf_matrix_def list_all_iff)
  qed
  have len: "length (w_P ?P0) = ncols X" by (simp add: zeros_def)
  from fit_loop_passes [OF refl ex len, of "nat n_iter" eta 0]
  obtain k P where r: "Perceptron_fit eta n_iter X y = Inr P" "k \<le> nat n_iter"
      "w_P P = fst (after_passes eta X y k)"
      "b_P P = fst (snd (after_passes eta X y k))"
      "\<forall>j. 1 \<le> j \<and> j < k \<longrightarrow> 0 < ?errs j"
      "k < nat n_iter \<longrightarrow> 1 \<le> k \<and> ?errs k = 0"
      "errors_P P = filter (\<lambda>e. e \<noteq> 0) (map ?errs [1..<Suc k])"
    by (auto simp: Perceptron_fit_def after_passes_def zeros_def)
  have init: "after_passes eta X y 0 = (replicate (ncols X) 0, 0, 0)"
    by (simp add: after_passes_def)
  have "filter (\<lambda>e. e \<noteq> 0) (map ?errs [1..<Suc k])
      = map ?errs [1..<k] @ (if k = 0 \<or> ?errs k = 0 then [] else [?errs k])"
  proof (cases k)
    case 0
    then show ?thesis by simp
  next
    case (Suc k')
    have "\<forall>e \<in> set (map ?errs [1..<k]). e \<noteq> 0" using r(5) by auto
    then have "filter (\<lambda>e. e \<noteq> 0) (map ?errs [1..<k]) = map ?errs [1..<k]"
      by (simp only: filter_id_conv)
    moreover have "[1..<Suc k] = [1..<k] @ [k]" using Suc by simp
    ultimately show ?thesis using Suc by simp
  qed
  with r init show ?thesis by (intro exI [of _ k] exI [of _ P]) simp
qed

theorem Perceptron_fit_passes_witness:
  "wf_matrix \<lparr>ncols = 1, rows = [[1]]\<rparr> \<and> set [-1 :: real] \<subseteq> {1, -1}
   \<and> Perceptron_fit 1 5 \<lparr>ncols = 1, rows = [[1]]\<rparr> [-1]
        = Inr \<lparr>w_P = [-1], b_P = -1, errors_P = [1]\<rparr>
   \<and> after_passes 1 \<lparr>ncols = 1, rows = [[1]]\<rparr> [-1] 1 = ([-1], -1, 1)
   \<and> after_passes 1 \<lparr>ncols = 1, rows = [[1]]\<rparr> [-1] 2 = ([-1], -1, 0)
   \<and> (\<exists>k P. Perceptron_fit 1 5 \<lparr>ncols = 1, rows = [[1]]\<rparr> [-1] = Inr P
      \<and> k \<le> nat 5
      \<and> after_passes 1 \<lparr>ncols = 1, rows = [[1]]\<rparr> [-1] 0
           = (replicate (ncols \<lparr>ncols = 1, rows = [[1]]\<rparr>) 0, 0, 0)
      \<and> w_P P = fst (after_passes 1 \<lparr>ncols = 1, rows = [[1]]\<rparr> [-1] k)
      \<and> b_P P = fst (snd (after_passes 1 \<lparr>ncols = 1, rows = [[1]]\<rparr> [-1] k))
      \<and> (\<forall>j. 1 \<le> j \<and> j < k \<longrightarrow> 0 < snd (snd (after_passes 1 \<lparr>ncols = 1, rows = [[1]]\<rparr> [-1] j)))
      \<and> (k < nat 5 \<longrightarrow> 1 \<le> k \<and> snd (snd (after_passes 1 \<lparr>ncols = 1, rows = [[1]]\<rparr> [-1] k)) = 0)
      \<and> errors_P P = map (\<lambda>j. snd (snd (after_passes 1 \<lparr>ncols = 1, rows = [[1]]\<rparr> [-1] j))) [1..<k]
            @ (if k = 0 \<or> snd (snd (after_passes 1 \<lparr>ncols = 1, rows = [[1]]\<rparr> [-1] k)) = 0 then []
               else [snd (snd (after_passes 1 \<lparr>ncols = 1, rows = [[1]]\<rparr> [-1] k))]))"
proof -
  have h1: "wf_matrix \<lparr>ncols = 1, rows = [[1]]\<rparr>" by (simp add: wf_matrix_def)
  have h2: "set [-1 :: real] \<subseteq> {1, -1}" by simp
  have v: "Perceptron_fit 1 5 \<lparr>ncols = 1, rows = [[1]]\<rparr> [-1]
        = Inr \<lparr>w_P = [-1], b_P = -1, errors_P = [1]\<rparr>"
    by (simp add: Perceptron_fit_def zeros_def Perceptron_predict1_def Perceptron_net_input1_def
        dot_def vadd_def smul_def eval_nat_numeral)
  have a1: "after_passes 1 \<lparr>ncols = 1, rows = [[1]]\<rparr> [-1] 1 = ([-1], -1, 1)"
    by (simp add: after_passes_def inner_def sign_pm_def)
  have a2: "after_passes 1 \<lparr>ncols = 1, rows = [[1]]\<rparr> [-1] 2 = ([-1], -1, 0)"
    by (simp add: after_passes_def inner_def sign_pm_def eval_nat_numeral)
  from h1 h2 v a1 a2 Perceptron_fit_passes [OF h1 h2, of 1 5] show ?thesis by blast
qed

text \<open>
  Claim C5. \<open>errors_\<close> after early convergence: with one example \<open>x = [1]\<close>,
  \<open>y = -1\<close>, the first pass makes one update and the second pass none, so two
  passes are performed; \<open>fit\<close> returns before the append, and \<open>errors_\<close> is
  \<open>[1]\<close>: the final pass with zero errors has no entry.
\<close>

theorem Perceptron_fit_errors_final_pass:
  "Perceptron_fit 1 5 \<lparr>ncols = 1, rows = [[1]]\<rparr> [-1]
     = Inr \<lparr>w_P = [-1], b_P = -1, errors_P = [1]\<rparr>
   \<and> epoch 1 (zip (rows \<lparr>ncols = 1, rows = [[1]]\<rparr>) [-1]) ([0], 0, 0) = Inr ([-1], -1, 1)
   \<and> epoch 1 (zip (rows \<lparr>ncols = 1, rows = [[1]]\<rparr>) [-1]) ([-1], -1, 0) = Inr ([-1], -1, 0)"
  by (simp add: Perceptron_fit_def zeros_def Perceptron_predict1_def Perceptron_net_input1_def
      dot_def vadd_def smul_def eval_nat_numeral)

section \<open>The Perceptron: prediction\<close>

text \<open>
  Claim C9. For a feature matrix whose column count is the length of the
  weight vector, \<open>Perceptron_predict\<close> returns one label per row, the sign of
  the row's net input \<open>\<langle>x, w\<rangle> + b\<close> with a net input of exactly 0 mapped to
  \<open>+1\<close>; every label is \<open>+1\<close> or \<open>-1\<close>.
\<close>

theorem Perceptron_predict_sign:
  assumes "ncols X = length w"
  shows "\<exists>labels. Perceptron_predict w b X = Inr labels
      \<and> length labels = nrows X
      \<and> (\<forall>i < nrows X. labels ! i = (if inner (rows X ! i) w + b \<ge> 0 then 1 else -1))
      \<and> (\<forall>i < nrows X. inner (rows X ! i) w + b = 0 \<longrightarrow> labels ! i = 1)
      \<and> set labels \<subseteq> {1, -1}"
  using assms
  by (auto simp: Perceptron_predict_def Perceptron_net_input_def nrows_def inner_def)

theorem Perceptron_predict_sign_witness:
  "ncols \<lparr>ncols = 2, rows = [[1, 1], [0, 1], [2, 0]]\<rparr> = length [1, -1 :: real]
   \<and> Perceptron_predict [1, -1] 0 \<lparr>ncols = 2, rows = [[1, 1], [0, 1], [2, 0]]\<rparr> = Inr [1, -1, 1]
   \<and> inner [1, 1] [1, -1] + 0 = 0"
  using Perceptron_predict_sign [of "\<lparr>ncols = 2, rows = [[1, 1], [0, 1], [2, 0]]\<rparr>" "[1, -1]" 0]
  by (simp add: Perceptron_predict_def Perceptron_net_input_def inner_def)

section \<open>AdaBoost: the weighted vote\<close>

lemma vadd_smul_nth:
  "length input = length xs \<Longrightarrow> i < length xs \<Longrightarrow>
   vadd input (smul c (map h xs)) ! i = input ! i + c * h (xs ! i)"
  by (simp add: vadd_def smul_def)

lemma AdaBoost_net_input_loop_sum:
  assumes "\<forall>t \<in> set ts. t < length (w_A A) \<and> t < length (learners_A A)"
    and "length input = nrows X"
  shows "\<exists>out. AdaBoost_net_input_loop A X ts input = Inr out \<and> length out = nrows X
      \<and> (\<forall>i < nrows X. out ! i =
            input ! i + sum_list (map (\<lambda>t. w_A A ! t * (learners_A A ! t) (rows X ! i)) ts))"
  using assms
proof (induction ts arbitrary: input)
  case Nil
  then show ?case by simp
next
  case (Cons t ts)
  let ?input' = "vadd input (smul (w_A A ! t) (map (learners_A A ! t) (rows X)))"
  have len': "length ?input' = nrows X"
    using Cons.prems(2) by (simp add: vadd_def smul_def nrows_def)
  have bounds: "\<forall>t \<in> set ts. t < length (w_A A) \<and> t < length (learners_A A)"
    using Cons.prems(1) by simp
  from Cons.IH [OF bounds len'] obtain out where
    out: "AdaBoost_net_input_loop A X ts ?input' = Inr out" "length out = nrows X"
      "\<forall>i < nrows X. out ! i =
         ?input' ! i + sum_list (map (\<lambda>t. w_A A ! t * (learners_A A ! t) (rows X ! i)) ts)"
    by blast
  have step: "AdaBoost_net_input_loop A X (t # ts) input = Inr out"
    using Cons.prems(1) out(1) by simp
  have "\<forall>i < nrows X. out ! i =
      input ! i + sum_list (map (\<lambda>t. w_A A ! t * (learners_A A ! t) (rows X ! i)) (t # ts))"
    using out(3) Cons.prems(2) by (simp add: vadd_smul_nth nrows_def)
  with step out(2) show ?case by blast
qed

text \<open>
  Claim C8. When the fitted object holds \<open>T\<close> learners and \<open>T\<close> weights,
  \<open>AdaBoost_predict\<close> returns one label per row of \<open>X\<close>: \<open>+1\<close> when the weighted
  sum \<open>\<Sum>\<^sub>t w\<^sub>t * h\<^sub>t(x)\<close> over all \<open>T\<close> stored learners is non-negative and \<open>-1\<close>
  otherwise, so every label is \<open>+1\<close> or \<open>-1\<close>.
\<close>

theorem AdaBoost_predict_weighted_vote:
  assumes "length (w_A A) = nat (T_A A)" and "length (learners_A A) = nat (T_A A)"
  shows "\<exists>labels. AdaBoost_predict A X = Inr labels
      \<and> length labels = nrows X
      \<and> (\<forall>i < nrows X. labels ! i =
            (if (\<Sum>t < nat (T_A A). w_A A ! t * (learners_A A ! t) (rows X ! i)) \<ge> 0
             then 1 else -1))
      \<and> set labels \<subseteq> {1, -1}"
proof -
  have bounds: "\<forall>t \<in> set [0..<nat (T_A A)]. t < length (w_A A) \<and> t < length (learners_A A)"
    using assms by simp
  have len: "length (zeros (nrows X)) = nrows X" by (simp add: zeros_def)
  from AdaBoost_net_input_loop_sum [OF bounds len] obtain out where
    out: "AdaBoost_net_input A X = Inr out" "length out = nrows X"
      "\<forall>i < nrows X. out ! i = zeros (nrows X) ! i
         + sum_list (map (\<lambda>t. w_A A ! t * (learners_A A ! t) (rows X ! i)) [0..<nat (T_A A)])"
    unfolding AdaBoost_net_input_def by blast
  have sum: "sum_list (map f [0..<n]) = (\<Sum>t < n. f t)" for f :: "nat \<Rightarrow> real" and n
    by (simp add: interv_sum_list_conv_sum_set_nat atLeast0LessThan)
  have nth: "\<forall>i < nrows X. out ! i = (\<Sum>t < nat (T_A A). w_A A ! t * (learners_A A ! t) (rows X ! i))"
    using out(3) by (simp add: sum zeros_def)
  let ?labels = "map (\<lambda>z. if z \<ge> 0 then 1 else -1 :: real) out"
  have "AdaBoost_predict A X = Inr ?labels"
    by (simp add: AdaBoost_predict_def out(1))
  moreover have "length ?labels = nrows X" using out(2) by simp
  moreover have "\<forall>i < nrows X. ?labels ! i =
            (if (\<Sum>t < nat (T_A A). w_A A ! t * (learners_A A ! t) (rows X ! i)) \<ge> 0
             then 1 else -1)"
    using nth out(2) by simp
  moreover have "set ?labels \<subseteq> {1, -1}" by auto
  ultimately show ?thesis by blast
qed

theorem AdaBoost_predict_weighted_vote_witness:
  "length (w_A \<lparr>T_A = 2, w_A = [1, 2], learners_A = [\<lambda>r. 1, \<lambda>r. if r ! 0 \<ge> 3 then 1 else -1]\<rparr>)
     = nat (T_A \<lparr>T_A = 2, w_A = [1, 2], learners_A = [\<lambda>r. 1, \<lambda>r. if r ! 0 \<ge> 3 then 1 else -1]\<rparr>)
   \<and> length (learners_A \<lparr>T_A = 2, w_A = [1, 2], learners_A = [\<lambda>r. 1, \<lambda>r. if r ! 0 \<ge> 3 then 1 else -1]\<rparr>)
     = nat (T_A \<lparr>T_A = 2, w_A = [1, 2], learners_A = [\<lambda>r. 1, \<lambda>r. if r ! 0 \<ge> 3 then 1 else -1]\<rparr>)
   \<and> AdaBoost_predict \<lparr>T_A = 2, w_A = [1, 2], learners_A = [\<lambda>r. 1, \<lambda>r. if r ! 0 \<ge> 3 then 1 else -1]\<rparr>
        \<lparr>ncols = 1, rows = [[5], [0]]\<rparr> = Inr [1, -1]"
  using AdaBoost_predict_weighted_vote
    [of "\<lparr>T_A = 2, w_A = [1, 2], learners_A = [\<lambda>r. 1, \<lambda>r. if r ! 0 \<ge> 3 then 1 else -1]\<rparr>"
        "\<lparr>ncols = 1, rows = [[5], [0]]\<rparr>"]
  by (simp add: AdaBoost_predict_def AdaBoost_net_input_def nrows_def zeros_def vadd_def
      smul_def eval_nat_numeral)

section \<open>Minibatches\<close>

lemma py_range_batches:
  assumes "1 \<le> m" and "m \<le> n"
  shows "py_range 0 (int n - int m + 1) (int m) = Inr (map (\<lambda>k. int (k * m)) [0..<n div m])"
proof -
  have "(int n - int m) div int m = int n div int m - 1"
    using assms div_mult_self1 [of "int m" "int n" "-1"] by simp
  then have "nat ((int n - int m + 1 - 0 - 1) div int m + 1) = n div m"
    by (simp add: zdiv_int [symmetric])
  then show ?thesis
    using assms by (simp add: py_range_def)
qed

lemma batch_idx_props:
  assumes "k < n div m" and "length indices = n" and "1 \<le> m"
  shows "length (take m (drop (k * m) indices)) = m"
    and "\<forall>j < m. take m (drop (k * m) indices) ! j = indices ! (k * m + j)"
    and "\<forall>j < m. k * m + j < n"
proof -
  have "Suc k \<le> n div m" using assms(1) by simp
  then have "Suc k * m \<le> (n div m) * m" by (rule mult_le_mono1)
  also have "\<dots> \<le> n" by simp
  finally have le: "k * m + m \<le> n" by simp
  then show "length (take m (drop (k * m) indices)) = m"
    using assms(2) by simp
  show "\<forall>j < m. take m (drop (k * m) indices) ! j = indices ! (k * m + j)"
    using le assms(2) by simp
  show "\<forall>j < m. k * m + j < n" using le by simp
qed

lemma shuffled_length: "shuffled n indices \<Longrightarrow> length indices = n"
  using distinct_card [of indices] by (simp add: shuffled_def)

lemma minibatch_generator_explicit:
  assumes "shuffled (nrows X) indices" and "length y = nrows X"
    and "1 \<le> m" and "m \<le> nrows X"
  shows "minibatch_generator indices X y (int m)
      = map (\<lambda>k. Inr (take_rows X (take m (drop (k * m) indices)),
                       map (\<lambda>i. y ! i) (take m (drop (k * m) indices))))
            [0..<nrows X div m]"
proof -
  let ?n = "nrows X"
  have set: "set indices = {0..<?n}"
    using assms(1) by (simp add: shuffled_def)
  have len: "length indices = ?n" using assms(1) by (rule shuffled_length)
  have inr: "list_all (\<lambda>i. i < length y) (take m (drop (k * m) indices))" for k
  proof -
    have "set (take m (drop (k * m) indices)) \<subseteq> set indices"
      by (meson set_take_subset set_drop_subset subset_trans)
    then show ?thesis using set assms(2) by (auto simp: list_all_iff)
  qed
  show ?thesis
    using py_range_batches [OF assms(3,4)]
    by (simp add: minibatch_generator_def len o_def index_vec_def inr Let_def del: of_nat_mult)
qed

text \<open>
  Claim C6. For a shuffle \<open>indices\<close> of \<open>0..n-1\<close>, as many labels as rows and
  \<open>1 \<le> M \<le> n\<close>, the generator yields exactly \<open>n div M\<close> batches and no
  exception; batch \<open>k\<close> holds exactly \<open>M\<close> rows and \<open>M\<close> labels, and its \<open>j\<close>-th
  row and label are those of \<open>X\<close> and \<open>y\<close> at the same index
  \<open>indices ! (k * M + j)\<close>. The positions \<open>k * M + j\<close> are below \<open>n\<close> and never
  repeat, so only the first \<open>M * (n div M)\<close> entries of the one permutation are
  used and the remainder is dropped.
\<close>

theorem minibatch_generator_batches:
  assumes "shuffled (nrows X) indices" and "length y = nrows X"
    and "1 \<le> m" and "m \<le> nrows X"
  shows "length (minibatch_generator indices X y (int m)) = nrows X div m
      \<and> (\<forall>k < nrows X div m. \<exists>F ys.
            minibatch_generator indices X y (int m) ! k = Inr (F, ys)
            \<and> ncols F = ncols X \<and> nrows F = m \<and> length ys = m
            \<and> (\<forall>j < m. k * m + j < nrows X
                  \<and> rows F ! j = rows X ! (indices ! (k * m + j))
                  \<and> ys ! j = y ! (indices ! (k * m + j))))"
proof -
  let ?n = "nrows X"
  note gen = minibatch_generator_explicit [OF assms]
  have len: "length indices = ?n" using assms(1) by (rule shuffled_length)
  have "\<exists>F ys.
            minibatch_generator indices X y (int m) ! k = Inr (F, ys)
            \<and> ncols F = ncols X \<and> nrows F = m \<and> length ys = m
            \<and> (\<forall>j < m. k * m + j < ?n
                  \<and> rows F ! j = rows X ! (indices ! (k * m + j))
                  \<and> ys ! j = y ! (indices ! (k * m + j)))"
    if k: "k < ?n div m" for k
  proof -
    let ?idx = "take m (drop (k * m) indices)"
    note b = batch_idx_props [OF k len assms(3)]
    have "minibatch_generator indices X y (int m) ! k
        = Inr (take_rows X ?idx, map (\<lambda>i. y ! i) ?idx)"
      using k by (simp add: gen)
    moreover have "ncols (take_rows X ?idx) = ncols X" by (simp add: take_rows_def)
    moreover have "nrows (take_rows X ?idx) = m"
      using b(1) by (simp add: take_rows_def nrows_def)
    moreover have "length (map (\<lambda>i. y ! i) ?idx) = m" using b(1) by simp
    moreover have "\<forall>j < m. k * m + j < ?n
                  \<and> rows (take_rows X ?idx) ! j = rows X ! (indices ! (k * m + j))
                  \<and> map (\<lambda>i. y ! i) ?idx ! j = y ! (indices ! (k * m + j))"
    proof (intro allI impI)
      fix j assume j: "j < m"
      have "j < length ?idx" using b(1) j by simp
      then show "k * m + j < ?n
                  \<and> rows (take_rows X ?idx) ! j = rows X ! (indices ! (k * m + j))
                  \<and> map (\<lambda>i. y ! i) ?idx ! j = y ! (indices ! (k * m + j))"
        using b(2,3) j by (simp add: take_rows_def del: nth_take nth_drop length_take length_drop)
    qed
    ultimately show ?thesis by blast
  qed
  moreover have "length (minibatch_generator indices X y (int m)) = ?n div m"
    by (simp add: gen)
  ultimately show ?thesis by blast
qed

theorem minibatch_generator_batches_witness:
  "shuffled (nrows \<lparr>ncols = 1, rows = [[0], [1], [2], [3], [4]]\<rparr>) [3, 1, 4, 0, 2]
   \<and> length [10, 11, 12, 13, 14 :: int] = nrows \<lparr>ncols = 1, rows = [[0], [1], [2], [3], [4]]\<rparr>
   \<and> (1 :: nat) \<le> 2 \<and> 2 \<le> nrows \<lparr>ncols = 1, rows = [[0], [1], [2], [3], [4]]\<rparr>
   \<and> minibatch_generator [3, 1, 4, 0, 2] \<lparr>ncols = 1, rows = [[0], [1], [2], [3], [4]]\<rparr>
        [10, 11, 12, 13, 14 :: int] (int 2)
      = [Inr (\<lparr>ncols = 1, rows = [[3], [1]]\<rparr>, [13, 11]),
         Inr (\<lparr>ncols = 1, rows = [[4], [0]]\<rparr>, [14, 10])]"
proof -
  have h1: "shuffled (nrows \<lparr>ncols = 1, rows = [[0], [1], [2], [3], [4]]\<rparr>) [3, 1, 4, 0, 2]"
    by (auto simp: shuffled_def nrows_def)
  have h2: "length [10, 11, 12, 13, 14 :: int] = nrows \<lparr>ncols = 1, rows = [[0], [1], [2], [3], [4]]\<rparr>"
    by (simp add: nrows_def)
  have h3: "(1 :: nat) \<le> 2" by simp
  have h4: "2 \<le> nrows \<lparr>ncols = 1, rows = [[0], [1], [2], [3], [4]]\<rparr>" by (simp add: nrows_def)
  have v: "minibatch_generator [3, 1, 4, 0, 2] \<lparr>ncols = 1, rows = [[0], [1], [2], [3], [4]]\<rparr>
        [10, 11, 12, 13, 14 :: int] (int 2)
      = [Inr (\<lparr>ncols = 1, rows = [[3], [1]]\<rparr>, [13, 11]),
         Inr (\<lparr>ncols = 1, rows = [[4], [0]]\<rparr>, [14, 10])]"
    by (simp add: minibatch_generator_def py_range_def index_vec_def take_rows_def
        eval_nat_numeral upt_rec)
  from h1 h2 h3 h4 v minibatch_generator_batches [OF h1 h2 h3 h4] show ?thesis by blast
qed

section \<open>The network: backward propagation\<close>

lemma has_shape_row: "has_shape A n m \<Longrightarrow> i < n \<Longrightarrow> length (rows A ! i) = m"
  by (simp add: has_shape_def wf_matrix_def nrows_def list_all_length)

lemma sum_list_map2_nth:
  fixes f :: "'a \<Rightarrow> 'b \<Rightarrow> real"
  shows "length xs = length ys \<Longrightarrow> sum_list (map2 f xs ys) = (\<Sum>k < length xs. f (xs ! k) (ys ! k))"
  by (simp add: sum_list_sum_nth atLeast0LessThan)

lemma sum_list_map_upt:
  fixes f :: "nat \<Rightarrow> real"
  shows "sum_list (map f [0..<n]) = (\<Sum>k < n. f k)"
  by (simp add: interv_sum_list_conv_sum_set_nat atLeast0LessThan)

lemma sum_list_map_nth:
  fixes f :: "'a \<Rightarrow> real"
  shows "sum_list (map f xs) = (\<Sum>k < length xs. f (xs ! k))"
  by (simp add: sum_list_sum_nth atLeast0LessThan)

lemma elementwise_shape:
  assumes "has_shape A n m" and "has_shape B n m"
  shows "\<exists>C. elementwise f A B = Inr C \<and> has_shape C n m
      \<and> (\<forall>i < n. \<forall>j < m. entry C i j = f (entry A i j) (entry B i j))"
proof -
  let ?C = "\<lparr>ncols = ncols A, rows = map2 (map2 f) (rows A) (rows B)\<rparr>"
  have eq: "elementwise f A B = Inr ?C"
    using assms by (simp add: elementwise_def has_shape_def)
  have len: "length (rows A) = n" "length (rows B) = n"
    using assms by (simp_all add: has_shape_def nrows_def)
  have row: "rows ?C ! i = map2 f (rows A ! i) (rows B ! i)" if "i < n" for i
    using that len by simp
  have rl: "length (rows ?C ! i) = m" if "i < n" for i
    using that has_shape_row [OF assms(1) that] has_shape_row [OF assms(2) that] len
    by simp
  have "has_shape ?C n m"
    using assms len rl by (simp add: has_shape_def nrows_def wf_matrix_def list_all_length)
  moreover have "\<forall>i < n. \<forall>j < m. entry ?C i j = f (entry A i j) (entry B i j)"
    using has_shape_row [OF assms(1)] has_shape_row [OF assms(2)] len
    by (simp add: entry_def)
  ultimately show ?thesis using eq by blast
qed

lemma mat_map_shape:
  assumes "has_shape A n m"
  shows "has_shape (mat_map f A) n m
      \<and> (\<forall>i < n. \<forall>j < m. entry (mat_map f A) i j = f (entry A i j))"
proof -
  have len: "length (rows A) = n" using assms by (simp add: has_shape_def nrows_def)
  have "has_shape (mat_map f A) n m"
    using assms by (simp add: has_shape_def mat_map_def nrows_def wf_matrix_def list_all_length)
  moreover have "\<forall>i < n. \<forall>j < m. entry (mat_map f A) i j = f (entry A i j)"
    using has_shape_row [OF assms] len by (simp add: entry_def mat_map_def)
  ultimately show ?thesis by blast
qed

lemma mat_T_shape:
  assumes "has_shape A n m"
  shows "has_shape (mat_T A) m n
      \<and> (\<forall>j < m. \<forall>i < n. entry (mat_T A) j i = entry A i j)"
  using assms
  by (simp add: has_shape_def mat_T_def nrows_def wf_matrix_def list_all_length entry_def)

lemma mat_dot_shape:
  assumes "has_shape A n k" and "has_shape B k m"
  shows "\<exists>C. mat_dot A B = Inr C \<and> has_shape C n m
      \<and> (\<forall>i < n. \<forall>j < m. entry C i j = (\<Sum>l < k. entry A i l * entry B l j))"
proof -
  let ?C = "\<lparr>ncols = ncols B,
             rows = map (\<lambda>a. map (\<lambda>j. sum_list (map2 (\<lambda>ak bk. ak * bk ! j) a (rows B)))
                                  [0..<ncols B]) (rows A)\<rparr>"
  have eq: "mat_dot A B = Inr ?C"
    using assms by (simp add: mat_dot_def has_shape_def)
  have lenA: "length (rows A) = n" and lenB: "length (rows B) = k" and cB: "ncols B = m"
    using assms by (simp_all add: has_shape_def nrows_def)
  have "has_shape ?C n m"
    using lenA cB by (simp add: has_shape_def nrows_def wf_matrix_def list_all_length)
  moreover have "\<forall>i < n. \<forall>j < m. entry ?C i j = (\<Sum>l < k. entry A i l * entry B l j)"
  proof (intro allI impI)
    fix i j assume i: "i < n" and j: "j < m"
    have la: "length (rows A ! i) = length (rows B)"
      using has_shape_row [OF assms(1) i] lenB by simp
    have "entry ?C i j = sum_list (map2 (\<lambda>ak bk. ak * bk ! j) (rows A ! i) (rows B))"
      using i j lenA cB by (simp add: entry_def)
    also have "\<dots> = (\<Sum>l < k. rows A ! i ! l * (rows B ! l ! j))"
      using sum_list_map2_nth [OF la, of "\<lambda>ak bk. ak * bk ! j"] la lenB by simp
    finally show "entry ?C i j = (\<Sum>l < k. entry A i l * entry B l j)"
      by (simp add: entry_def)
  qed
  ultimately show ?thesis using eq by blast
qed

lemma sum_axis0_nth:
  assumes "has_shape A n m"
  shows "length (sum_axis0 A) = m \<and> (\<forall>j < m. sum_axis0 A ! j = (\<Sum>i < n. entry A i j))"
proof -
  have len: "length (rows A) = n" and c: "ncols A = m"
    using assms by (simp_all add: has_shape_def nrows_def)
  have "sum_axis0 A ! j = (\<Sum>i < n. entry A i j)" if "j < m" for j
    using that c sum_list_map_nth [of "\<lambda>r. r ! j" "rows A"] len
    by (simp add: sum_axis0_def entry_def)
  then show ?thesis using c by (simp add: sum_axis0_def)
qed

lemma collect_map_Inr:
  "\<forall>x \<in> set xs. f x = Inr (g x) \<Longrightarrow> collect (map f xs) = Inr (map g xs)"
  by (induction xs) simp_all

lemma int_to_onehot_entries:
  assumes "\<forall>t \<in> set y. 0 \<le> t \<and> t < int C"
  shows "\<exists>Y. int_to_onehot y C = Inr Y \<and> has_shape Y (length y) C
      \<and> (\<forall>i < length y. \<forall>c < C. entry Y i c = onehot (y ! i) c)"
proof -
  let ?g = "\<lambda>t. (replicate C (0 :: real))[nat t := 1]"
  let ?Y = "\<lparr>ncols = C, rows = map ?g y\<rparr>"
  have "\<forall>t \<in> set y. onehot_row C t = Inr (?g t)"
    using assms by (auto simp: onehot_row_def)
  then have "collect (map (onehot_row C) y) = Inr (map ?g y)"
    by (rule collect_map_Inr)
  then have "int_to_onehot y C = Inr ?Y"
    by (simp add: int_to_onehot_def)
  moreover have "has_shape ?Y (length y) C"
    by (simp add: has_shape_def nrows_def wf_matrix_def list_all_length)
  moreover have "\<forall>i < length y. \<forall>c < C. entry ?Y i c = onehot (y ! i) c"
  proof (intro allI impI)
    fix i c assume i: "i < length y" and c: "c < C"
    have "0 \<le> y ! i" using assms i by simp
    then show "entry ?Y i c = onehot (y ! i) c"
      using i c by (auto simp: entry_def onehot_def nth_list_update)
  qed
  ultimately show ?thesis by blast
qed

text \<open>
  The factor \<open>o * (1 - o)\<close> that \<open>backward\<close> calls the sigmoid derivative is the
  derivative of \<open>sigmoid\<close> at a pre-activation \<open>z\<close> with \<open>o = sigmoid z\<close>, and the
  output delta is the derivative of one term \<open>(o - t)\<^sup>2 / n\<close> of the batch-averaged
  squared error with respect to that pre-activation.
\<close>

lemma sigmoid_derivative:
  "(sigmoid has_real_derivative sigmoid z * (1 - sigmoid z)) (at z)"
proof -
  have pos: "1 + exp (- z) \<noteq> 0" using exp_gt_zero [of "- z"] by linarith
  have "((\<lambda>z. 1 / (1 + exp (- z))) has_real_derivative
          (0 * (1 + exp (- z)) - 1 * (exp (- z) * (- 1))) / ((1 + exp (- z)) * (1 + exp (- z)))) (at z)"
    using pos by (intro derivative_intros DERIV_divide) (auto intro!: derivative_eq_intros)
  moreover have "(0 * (1 + exp (- z)) - 1 * (exp (- z) * (- 1))) / ((1 + exp (- z)) * (1 + exp (- z)))
      = 1 / (1 + exp (- z)) * (1 - 1 / (1 + exp (- z)))"
    using pos by (simp add: field_simps)
  ultimately show ?thesis
    by (simp add: sigmoid_def [abs_def])
qed

lemma squared_error_derivative:
  "((\<lambda>z. (sigmoid z - t) ^ 2 / n) has_real_derivative
      2 * (sigmoid z - t) / n * (sigmoid z * (1 - sigmoid z))) (at z)"
proof -
  have "((\<lambda>z. (sigmoid z - t) ^ 2) has_real_derivative
      2 * (sigmoid z - t) * (sigmoid z * (1 - sigmoid z))) (at z)"
    by (auto intro!: derivative_eq_intros sigmoid_derivative)
  from DERIV_cdivide [OF this, of n] show ?thesis by simp
qed

text \<open>
  Claim C4. For a batch of \<open>n\<close> labels in \<open>[0, num_classes)\<close> and activations of
  the matching shapes, \<open>backward\<close> returns the four gradients of the squared
  error, averaged over the batch by the \<open>1/n\<close> in the output delta: the output
  weight gradient is the sum over the batch of the outer products of
  \<open>delta_out = 2*(o_out - onehot(y))/n * o_out*(1 - o_out)\<close> with \<open>o_h\<close>, the output
  bias gradient its column sums, and the hidden-layer gradients are the same
  with the delta propagated through \<open>weight_out\<close> and \<open>o_h*(1 - o_h)\<close>.
\<close>

theorem backward_gradients:
  assumes labels: "\<forall>t \<in> set y. 0 \<le> t \<and> t < int (num_classes net)"
    and out: "has_shape o_out (length y) (num_classes net)"
    and hid: "has_shape o_h (length y) H"
    and wout: "has_shape (weight_out net) (num_classes net) H"
    and inp: "has_shape x (length y) F"
  shows "\<exists>dw_out db_out dw_h db_h.
      backward net x o_h o_out y = Inr (dw_out, db_out, dw_h, db_h)
      \<and> has_shape dw_out (num_classes net) H
      \<and> (\<forall>c < num_classes net. \<forall>h < H.
            entry dw_out c h = (\<Sum>i < length y. delta_out_spec o_out y i c * entry o_h i h))
      \<and> length db_out = num_classes net
      \<and> (\<forall>c < num_classes net. db_out ! c = (\<Sum>i < length y. delta_out_spec o_out y i c))
      \<and> has_shape dw_h H F
      \<and> (\<forall>h < H. \<forall>f < F.
            entry dw_h h f = (\<Sum>i < length y. delta_h_spec net o_h o_out y i h * entry x i f))
      \<and> length db_h = H
      \<and> (\<forall>h < H. db_h ! h = (\<Sum>i < length y. delta_h_spec net o_h o_out y i h))"
proof -
  let ?n = "length y" and ?C = "num_classes net"
  from int_to_onehot_entries [OF labels] obtain Y where
    Y: "int_to_onehot y ?C = Inr Y" "has_shape Y ?n ?C"
       "\<forall>i < ?n. \<forall>c < ?C. entry Y i c = onehot (y ! i) c" by blast
  from elementwise_shape [OF out Y(2), of "(-)"] obtain D where
    D: "elementwise (-) o_out Y = Inr D" "has_shape D ?n ?C"
       "\<forall>i < ?n. \<forall>c < ?C. entry D i c = entry o_out i c - entry Y i c" by blast
  let ?dl = "mat_map (\<lambda>v. 2 * v / real ?n) D"
  from mat_map_shape [OF D(2), of "\<lambda>v. 2 * v / real ?n"] have
    dl: "has_shape ?dl ?n ?C" "\<forall>i < ?n. \<forall>c < ?C. entry ?dl i c = 2 * entry D i c / real ?n"
    by blast+
  let ?om = "mat_map (\<lambda>v. 1 - v) o_out"
  from mat_map_shape [OF out, of "\<lambda>v. 1 - v"] have
    om: "has_shape ?om ?n ?C" "\<forall>i < ?n. \<forall>c < ?C. entry ?om i c = 1 - entry o_out i c"
    by blast+
  from elementwise_shape [OF out om(1), of "(*)"] obtain S where
    S: "elementwise (*) o_out ?om = Inr S" "has_shape S ?n ?C"
       "\<forall>i < ?n. \<forall>c < ?C. entry S i c = entry o_out i c * entry ?om i c" by blast
  from elementwise_shape [OF dl(1) S(2), of "(*)"] obtain delta where
    delta: "elementwise (*) ?dl S = Inr delta" "has_shape delta ?n ?C"
       "\<forall>i < ?n. \<forall>c < ?C. entry delta i c = entry ?dl i c * entry S i c" by blast
  have delta_spec: "entry delta i c = delta_out_spec o_out y i c" if "i < ?n" "c < ?C" for i c
    using that delta(3) dl(2) S(3) om(2) D(3) Y(3) by (simp add: delta_out_spec_def)
  from mat_T_shape [OF delta(2)] have
    dT: "has_shape (mat_T delta) ?C ?n"
        "\<forall>c < ?C. \<forall>i < ?n. entry (mat_T delta) c i = entry delta i c" by blast+
  from mat_dot_shape [OF dT(1) hid] obtain dw_out where
    dw_out: "mat_dot (mat_T delta) o_h = Inr dw_out" "has_shape dw_out ?C H"
       "\<forall>c < ?C. \<forall>h < H. entry dw_out c h = (\<Sum>i < ?n. entry (mat_T delta) c i * entry o_h i h)"
    by blast
  have dw_out_spec: "\<forall>c < ?C. \<forall>h < H.
      entry dw_out c h = (\<Sum>i < ?n. delta_out_spec o_out y i c * entry o_h i h)"
    using dw_out(3) dT(2) by (simp add: delta_spec)
  from sum_axis0_nth [OF delta(2)] have
    db_out: "length (sum_axis0 delta) = ?C"
       "\<forall>c < ?C. sum_axis0 delta ! c = (\<Sum>i < ?n. entry delta i c)" by blast+
  have db_out_spec: "\<forall>c < ?C. sum_axis0 delta ! c = (\<Sum>i < ?n. delta_out_spec o_out y i c)"
    using db_out(2) by (simp add: delta_spec)
  from mat_dot_shape [OF delta(2) wout] obtain dh where
    dh: "mat_dot delta (weight_out net) = Inr dh" "has_shape dh ?n H"
       "\<forall>i < ?n. \<forall>h < H. entry dh i h = (\<Sum>c < ?C. entry delta i c * entry (weight_out net) c h)"
    by blast
  let ?hm = "mat_map (\<lambda>v. 1 - v) o_h"
  from mat_map_shape [OF hid, of "\<lambda>v. 1 - v"] have
    hm: "has_shape ?hm ?n H" "\<forall>i < ?n. \<forall>h < H. entry ?hm i h = 1 - entry o_h i h"
    by blast+
  from elementwise_shape [OF hid hm(1), of "(*)"] obtain Sh where
    Sh: "elementwise (*) o_h ?hm = Inr Sh" "has_shape Sh ?n H"
       "\<forall>i < ?n. \<forall>h < H. entry Sh i h = entry o_h i h * entry ?hm i h" by blast
  from elementwise_shape [OF dh(2) Sh(2), of "(*)"] obtain delta_h where
    delta_h: "elementwise (*) dh Sh = Inr delta_h" "has_shape delta_h ?n H"
       "\<forall>i < ?n. \<forall>h < H. entry delta_h i h = entry dh i h * entry Sh i h" by blast
  have delta_h_spec': "entry delta_h i h = delta_h_spec net o_h o_out y i h"
    if "i < ?n" "h < H" for i h
    using that delta_h(3) dh(3) Sh(3) hm(2) by (simp add: delta_h_spec_def delta_spec)
  from mat_T_shape [OF delta_h(2)] have
    hT: "has_shape (mat_T delta_h) H ?n"
        "\<forall>h < H. \<forall>i < ?n. entry (mat_T delta_h) h i = entry delta_h i h" by blast+
  from mat_dot_shape [OF hT(1) inp] obtain dw_h where
    dw_h: "mat_dot (mat_T delta_h) x = Inr dw_h" "has_shape dw_h H F"
       "\<forall>h < H. \<forall>f < F. entry dw_h h f = (\<Sum>i < ?n. entry (mat_T delta_h) h i * entry x i f)"
    by blast
  have dw_h_spec: "\<forall>h < H. \<forall>f < F.
      entry dw_h h f = (\<Sum>i < ?n. delta_h_spec net o_h o_out y i h * entry x i f)"
    using dw_h(3) hT(2) by (simp add: delta_h_spec')
  from sum_axis0_nth [OF delta_h(2)] have
    db_h: "length (sum_axis0 delta_h) = H"
       "\<forall>h < H. sum_axis0 delta_h ! h = (\<Sum>i < ?n. entry delta_h i h)" by blast+
  have db_h_spec: "\<forall>h < H. sum_axis0 delta_h ! h = (\<Sum>i < ?n. delta_h_spec net o_h o_out y i h)"
    using db_h(2) by (simp add: delta_h_spec')
  have "backward net x o_h o_out y = Inr (dw_out, sum_axis0 delta, dw_h, sum_axis0 delta_h)"
    by (simp add: backward_def ebind_def Let_def Y(1) D(1) S(1) delta(1) dw_out(1) dh(1)
        Sh(1) delta_h(1) dw_h(1))
  with dw_out(2) dw_out_spec db_out(1) db_out_spec dw_h(2) dw_h_spec db_h(1) db_h_spec
  show ?thesis by blast
qed

theorem backward_gradients_witness:
  "has_shape \<lparr>ncols = 2, rows = [[1 / 2, 1 / 2], [1 / 2, 1 / 2]]\<rparr> (length [0 :: int, 1]) 2
   \<and> has_shape \<lparr>ncols = 1, rows = [[1 / 2], [1 / 4]]\<rparr> (length [0 :: int, 1]) 1
   \<and> has_shape \<lparr>ncols = 1, rows = [[1], [2]]\<rparr> 2 1
   \<and> has_shape \<lparr>ncols = 1, rows = [[1], [3]]\<rparr> (length [0 :: int, 1]) 1
   \<and> backward \<lparr>num_classes = 2, weight_in = \<lparr>ncols = 1, rows = [[0]]\<rparr>, bias_in = [0],
                weight_out = \<lparr>ncols = 1, rows = [[1], [2]]\<rparr>, bias_out = [0, 0]\<rparr>
        \<lparr>ncols = 1, rows = [[1], [3]]\<rparr>
        \<lparr>ncols = 1, rows = [[1 / 2], [1 / 4]]\<rparr>
        \<lparr>ncols = 2, rows = [[1 / 2, 1 / 2], [1 / 2, 1 / 2]]\<rparr>
        [0, 1]
      = Inr (\<lparr>ncols = 1, rows = [[- 1 / 32], [1 / 32]]\<rparr>, [0, 0],
             \<lparr>ncols = 1, rows = [[- 5 / 128]]\<rparr>, [1 / 128])"
proof -
  let ?net = "\<lparr>num_classes = 2, weight_in = \<lparr>ncols = 1, rows = [[0]]\<rparr>, bias_in = [0],
                weight_out = \<lparr>ncols = 1, rows = [[1], [2]]\<rparr>, bias_out = [0, 0]\<rparr>"
  let ?x = "\<lparr>ncols = 1, rows = [[1 :: real], [3]]\<rparr>"
  let ?o_h = "\<lparr>ncols = 1, rows = [[1 / 2 :: real], [1 / 4]]\<rparr>"
  let ?o_out = "\<lparr>ncols = 2, rows = [[1 / 2 :: real, 1 / 2], [1 / 2, 1 / 2]]\<rparr>"
  have h1: "\<forall>t \<in> set [0 :: int, 1]. 0 \<le> t \<and> t < int (num_classes ?net)" by simp
  have h2: "has_shape ?o_out (length [0 :: int, 1]) (num_classes ?net)"
    by (simp add: has_shape_def nrows_def wf_matrix_def)
  have h3: "has_shape ?o_h (length [0 :: int, 1]) 1"
    by (simp add: has_shape_def nrows_def wf_matrix_def)
  have h4: "has_shape (weight_out ?net) (num_classes ?net) 1"
    by (simp add: has_shape_def nrows_def wf_matrix_def)
  have h5: "has_shape ?x (length [0 :: int, 1]) 1"
    by (simp add: has_shape_def nrows_def wf_matrix_def)
  have v: "backward ?net ?x ?o_h ?o_out [0, 1]
      = Inr (\<lparr>ncols = 1, rows = [[- 1 / 32], [1 / 32]]\<rparr>, [0, 0],
             \<lparr>ncols = 1, rows = [[- 5 / 128]]\<rparr>, [1 / 128])"
    by (simp add: backward_def ebind_def Let_def int_to_onehot_def onehot_row_def
        elementwise_def mat_map_def mat_T_def mat_dot_def sum_axis0_def nrows_def
        eval_nat_numeral upt_rec)
  from backward_gradients [OF h1 h2 h3 h4 h5] h2 h3 h4 h5 v show ?thesis by simp
qed

section \<open>AdaBoost: the rounds of fit\<close>

lemma reweight_nth:
  "length mu = n \<Longrightarrow> length y = n \<Longrightarrow> length h = n \<Longrightarrow> i < n \<Longrightarrow>
   reweight wt mu y h ! i = mu ! i * exp (- wt * y ! i * h ! i)"
  by (simp add: reweight_def)

lemma length_reweight:
  "length mu = n \<Longrightarrow> length y = n \<Longrightarrow> length h = n \<Longrightarrow> length (reweight wt mu y h) = n"
  by (simp add: reweight_def)

lemma positive_reweight:
  assumes "positive mu"
  shows "positive (reweight wt mu y h)"
proof -
  have "\<forall>e \<in> set (zip mu (zip y h)). 0 < fst e"
    using assms by (auto simp: positive_def list_all_iff dest: set_zip_leftD)
  then show ?thesis
    by (auto simp: positive_def reweight_def list_all_iff)
qed

lemma positive_sum_list:
  assumes "positive v" and "v \<noteq> []"
  shows "0 < sum_list v"
  using assms
proof (induction v)
  case Nil
  then show ?case by simp
next
  case (Cons a v)
  show ?case
  proof (cases "v = []")
    case True
    then show ?thesis using Cons.prems by (simp add: positive_def)
  next
    case False
    then have "0 < sum_list v" using Cons by (simp add: positive_def)
    moreover have "0 < a" using Cons.prems by (simp add: positive_def)
    ultimately show ?thesis by simp
  qed
qed

lemma sum_list_div:
  fixes v :: vec
  shows "sum_list (map (\<lambda>m. m / c) v) = sum_list v / c"
  by (induction v) (simp_all add: add_divide_distrib)

lemma renormalize_simplex:
  assumes "positive v" and "v \<noteq> []"
  shows "simplex (length v) (renormalize v) \<and> positive (renormalize v)"
proof -
  have pos: "0 < sum_list v" using assms by (rule positive_sum_list)
  have "sum_list (renormalize v) = sum_list v / sum_list v"
    by (simp add: renormalize_def sum_list_div)
  then have "sum_list (renormalize v) = 1" using pos by simp
  moreover have "positive (renormalize v)"
    using assms(1) pos by (simp add: positive_def renormalize_def list_all_iff)
  moreover have "length (renormalize v) = length v" by (simp add: renormalize_def)
  ultimately show ?thesis
    by (auto simp: simplex_def positive_def list_all_iff less_imp_le)
qed

lemma init_simplex:
  assumes "0 < nrows X"
  shows "simplex (nrows X) (snd (AdaBoost_init T X)) \<and> positive (snd (AdaBoost_init T X))"
  using assms
  by (simp add: AdaBoost_init_def simplex_def positive_def list_all_iff sum_list_replicate)

lemma AdaBoost_round_simplex:
  assumes "AdaBoost_round weak X y t (A, mu) = Inr (A', mu')"
    and "simplex (nrows X) mu" and "positive mu" and "0 < nrows X"
  shows "simplex (nrows X) mu' \<and> positive mu'"
proof -
  let ?preds = "map (weak X y mu) (rows X)"
  let ?wt = "learner_weight (weighted_error mu y ?preds)"
  from assms(1) have ly: "length y = nrows X"
    and mu': "mu' = renormalize (reweight ?wt mu y ?preds)"
    by (auto simp: AdaBoost_round_def Let_def split: if_splits)
  have lm: "length mu = nrows X" using assms(2) by (simp add: simplex_def)
  have lr: "length (reweight ?wt mu y ?preds) = nrows X"
    using lm ly by (simp add: length_reweight nrows_def)
  then have ne: "reweight ?wt mu y ?preds \<noteq> []" using assms(4) by auto
  from renormalize_simplex [OF positive_reweight [OF assms(3)] ne]
  show ?thesis by (simp add: mu' lr)
qed

lemma AdaBoost_rounds_snoc:
  "AdaBoost_rounds weak X y (ts @ [t]) s =
     (case AdaBoost_rounds weak X y ts s of Inl e \<Rightarrow> Inl e
      | Inr s' \<Rightarrow> AdaBoost_round weak X y t s')"
  by (induction ts arbitrary: s) (auto split: sum.splits)

lemma AdaBoost_fit_upto_Suc:
  assumes "r < nat T"
  shows "AdaBoost_fit_upto (Suc r) weak T X y =
     (case AdaBoost_fit_upto r weak T X y of Inl e \<Rightarrow> Inl e
      | Inr s \<Rightarrow> AdaBoost_round weak X y r s)"
proof -
  have "min (Suc r) (nat T) = Suc r" "min r (nat T) = r" "\<not> T < 0" using assms by auto
  then show ?thesis
    by (simp add: AdaBoost_fit_upto_def AdaBoost_rounds_snoc)
qed

lemma AdaBoost_fit_upto_beyond:
  "nat T \<le> r \<Longrightarrow> AdaBoost_fit_upto r weak T X y = AdaBoost_fit_upto (nat T) weak T X y"
  by (simp add: AdaBoost_fit_upto_def min_def)

lemma AdaBoost_fit_upto_simplex:
  assumes "0 < nrows X"
  shows "AdaBoost_fit_upto r weak T X y = Inr (A, mu) \<Longrightarrow> simplex (nrows X) mu \<and> positive mu"
proof (induction r arbitrary: A mu)
  case 0
  then have "(A, mu) = AdaBoost_init T X"
    by (simp add: AdaBoost_fit_upto_def split: if_splits)
  then show ?case using init_simplex [OF assms, of T] by (metis snd_conv)
next
  case (Suc r)
  show ?case
  proof (cases "r < nat T")
    case True
    from Suc.prems AdaBoost_fit_upto_Suc [OF True, of weak X y]
    obtain A0 mu0 where s0: "AdaBoost_fit_upto r weak T X y = Inr (A0, mu0)"
      and rd: "AdaBoost_round weak X y r (A0, mu0) = Inr (A, mu)"
      by (auto split: sum.splits)
    from Suc.IH [OF s0] have "simplex (nrows X) mu0" "positive mu0" by simp_all
    from AdaBoost_round_simplex [OF rd this assms] show ?thesis .
  next
    case False
    then have "AdaBoost_fit_upto (Suc r) weak T X y = AdaBoost_fit_upto r weak T X y"
      using AdaBoost_fit_upto_beyond [of T r] AdaBoost_fit_upto_beyond [of T "Suc r"] by simp
    with Suc show ?thesis by simp
  qed
qed

text \<open>
  Claim C7. On at least one example the sample weights start uniform at \<open>1/n\<close>,
  and whenever the run has completed its first \<open>r\<close> rounds (for every \<open>r\<close>, so at
  every point of every run) the weights \<open>mu\<close> have one entry per example, sum to
  1 and are non-negative.
\<close>

theorem AdaBoost_mu_simplex:
  assumes "0 < nrows X" and "AdaBoost_fit_upto r weak T X y = Inr (A, mu)"
  shows "snd (AdaBoost_init T X) = replicate (nrows X) (1 / real (nrows X))
      \<and> length mu = nrows X \<and> sum_list mu = 1 \<and> (\<forall>m \<in> set mu. 0 \<le> m)"
  using AdaBoost_fit_upto_simplex [OF assms]
  by (simp add: simplex_def list_all_iff AdaBoost_init_def)

lemma const_learner_run:
  "AdaBoost_fit_upto 1 (\<lambda>X y mu r. 1) 1 \<lparr>ncols = 1, rows = [[0], [1]]\<rparr> [1, -1]
     = Inr (\<lparr>T_A = 1, w_A = [0], learners_A = [\<lambda>r. 1]\<rparr>, [1 / 2, 1 / 2])"
  by (simp add: AdaBoost_fit_upto_def AdaBoost_init_def AdaBoost_round_def Let_def nrows_def
      zeros_def weighted_error_def learner_weight_def reweight_def renormalize_def)

theorem AdaBoost_mu_simplex_witness:
  "0 < nrows \<lparr>ncols = 1, rows = [[0], [1]]\<rparr>
   \<and> AdaBoost_fit_upto 1 (\<lambda>X y mu r. 1) 1 \<lparr>ncols = 1, rows = [[0], [1]]\<rparr> [1, -1]
     = Inr (\<lparr>T_A = 1, w_A = [0], learners_A = [\<lambda>r. 1]\<rparr>, [1 / 2, 1 / 2])
   \<and> sum_list [1 / 2, 1 / 2 :: real] = 1"
proof -
  have h1: "0 < nrows \<lparr>ncols = 1, rows = [[0], [1]]\<rparr>" by (simp add: nrows_def)
  from AdaBoost_mu_simplex [OF h1 const_learner_run] h1 const_learner_run
  show ?thesis by simp
qed

lemma AdaBoost_round_ok:
  assumes "length y = nrows X"
    and "0 < weighted_error mu y (map (weak X y mu) (rows X))"
    and "weighted_error mu y (map (weak X y mu) (rows X)) < 1"
  shows "AdaBoost_round weak X y t (A, mu) =
     Inr (A\<lparr>w_A := (w_A A)[t := learner_weight (weighted_error mu y (map (weak X y mu) (rows X)))],
             learners_A := learners_A A @ [weak X y mu]\<rparr>,
          renormalize (reweight (learner_weight (weighted_error mu y (map (weak X y mu) (rows X))))
                       mu y (map (weak X y mu) (rows X))))"
  using assms by (simp add: AdaBoost_round_def Let_def)

lemma renormalize_reweight_nth:
  assumes "length mu = n" and "length y = n" and "length xs = n" and "i < n"
  shows "renormalize (reweight wt mu y (map h xs)) ! i
     = mu ! i * exp (- wt * y ! i * h (xs ! i))
       / (\<Sum>j < n. mu ! j * exp (- wt * y ! j * h (xs ! j)))"
proof -
  let ?v = "reweight wt mu y (map h xs)"
  have len: "length ?v = n" using assms by (simp add: length_reweight)
  have nth: "?v ! j = mu ! j * exp (- wt * y ! j * h (xs ! j))" if "j < n" for j
    using that assms reweight_nth [of mu n y "map h xs" j wt] by simp
  have "sum_list ?v = (\<Sum>j < n. ?v ! j)"
    using len by (simp add: sum_list_sum_nth atLeast0LessThan)
  also have "\<dots> = (\<Sum>j < n. mu ! j * exp (- wt * y ! j * h (xs ! j)))"
    by (rule sum.cong) (simp_all add: nth)
  finally have s: "sum_list ?v = (\<Sum>j < n. mu ! j * exp (- wt * y ! j * h (xs ! j)))" .
  have "renormalize ?v ! i = ?v ! i / sum_list ?v"
    using len assms(4) by (simp add: renormalize_def)
  then show ?thesis by (simp add: s nth assms(4))
qed

lemma AdaBoost_fit_upto_progress:
  assumes T: "0 \<le> T" and ly: "length y = nrows X" and n: "0 < nrows X"
    and weak: "\<forall>mu. simplex (nrows X) mu \<and> positive mu \<longrightarrow>
          0 < weighted_error mu y (map (weak X y mu) (rows X))
        \<and> weighted_error mu y (map (weak X y mu) (rows X)) < 1"
  shows "r \<le> nat T \<Longrightarrow>
     \<exists>A mu. AdaBoost_fit_upto r weak T X y = Inr (A, mu)
       \<and> length (learners_A A) = r \<and> length (w_A A) = nat T
       \<and> (\<forall>t < r. round_ok weak T X y A t)"
proof (induction r)
  case 0
  have "AdaBoost_fit_upto 0 weak T X y = Inr (AdaBoost_init T X)"
    using T by (simp add: AdaBoost_fit_upto_def)
  then show ?case by (simp add: AdaBoost_init_def zeros_def)
next
  case (Suc r)
  then have r: "r < nat T" by simp
  from Suc obtain A mu where s: "AdaBoost_fit_upto r weak T X y = Inr (A, mu)"
    and ll: "length (learners_A A) = r" and lw: "length (w_A A) = nat T"
    and prev: "\<forall>t < r. round_ok weak T X y A t"
    by auto
  from AdaBoost_fit_upto_simplex [OF n s] have sm: "simplex (nrows X) mu" and pm: "positive mu"
    by simp_all
  define h where "h = weak X y mu"
  define wt where "wt = learner_weight (weighted_error mu y (map h (rows X)))"
  define A' where "A' = A\<lparr>w_A := (w_A A)[r := wt], learners_A := learners_A A @ [h]\<rparr>"
  define mu' where "mu' = renormalize (reweight wt mu y (map h (rows X)))"
  have eps: "0 < weighted_error mu y (map (weak X y mu) (rows X))"
    "weighted_error mu y (map (weak X y mu) (rows X)) < 1"
    using weak sm pm by blast+
  have s': "AdaBoost_fit_upto (Suc r) weak T X y = Inr (A', mu')"
    using AdaBoost_fit_upto_Suc [OF r, of weak X y] s
      AdaBoost_round_ok [of y X mu weak r A, OF ly eps]
    by (simp add: A'_def mu'_def wt_def h_def)
  from AdaBoost_fit_upto_simplex [OF n s'] have sm': "simplex (nrows X) mu'" by simp
  have lm: "length mu = nrows X" using sm by (simp add: simplex_def)
  have lr: "length (rows X) = nrows X" by (simp add: nrows_def)
  have hr: "learners_A A' ! r = h" using ll by (simp add: A'_def nth_append)
  have wr: "w_A A' ! r = wt" using lw r by (simp add: A'_def)
  have c1: "learners_A A' ! r = weak X y mu" by (simp add: hr h_def)
  have c2: "w_A A' ! r
      = 0.5 * ln (1 / weighted_error mu y (map (learners_A A' ! r) (rows X)) - 1)"
    by (simp add: wr hr wt_def learner_weight_def)
  have c3: "\<forall>i < nrows X. mu' ! i =
             mu ! i * exp (- (w_A A' ! r) * y ! i * (learners_A A' ! r) (rows X ! i))
             / (\<Sum>j < nrows X. mu ! j * exp (- (w_A A' ! r) * y ! j * (learners_A A' ! r) (rows X ! j)))"
    using renormalize_reweight_nth [OF lm ly lr, of _ wt h]
    by (simp only: wr hr mu'_def) blast
  have c4: "length mu' = nrows X" "sum_list mu' = 1"
    using sm' by (simp_all add: simplex_def)
  have new: "round_ok weak T X y A' r"
    unfolding round_ok_def using s s' c1 c2 c3 c4 by blast
  have old: "round_ok weak T X y A' t" if t: "t < r" for t
  proof -
    have "learners_A A' ! t = learners_A A ! t" using t ll by (simp add: A'_def nth_append)
    moreover have "w_A A' ! t = w_A A ! t" using t by (simp add: A'_def)
    ultimately show ?thesis using prev t by (simp add: round_ok_def)
  qed
  have "\<forall>t < Suc r. round_ok weak T X y A' t"
    using old new by (auto simp: less_Suc_eq)
  moreover have "length (learners_A A') = Suc r" using ll by (simp add: A'_def)
  moreover have "length (w_A A') = nat T" using lw by (simp add: A'_def)
  ultimately show ?case using s' by blast
qed

text \<open>
  Claim C3. For \<open>T \<ge> 0\<close> rounds on \<open>n \<ge> 1\<close> examples with \<open>n\<close> labels and a
  weak-learner factory whose learners have weighted error strictly between 0
  and 1 under every positive weight vector of the simplex, \<open>AdaBoost_fit\<close>
  succeeds and stores exactly \<open>T\<close> learners and \<open>T\<close> weights: no round is skipped
  and none stops the run. Every round \<open>t < T\<close> is as \<open>round_ok\<close> says.
\<close>

theorem AdaBoost_fit_rounds:
  assumes "0 \<le> T" and "length y = nrows X" and "0 < nrows X"
    and "\<forall>mu. simplex (nrows X) mu \<and> positive mu \<longrightarrow>
          0 < weighted_error mu y (map (weak X y mu) (rows X))
        \<and> weighted_error mu y (map (weak X y mu) (rows X)) < 1"
  shows "\<exists>A. AdaBoost_fit weak T X y = Inr A
      \<and> length (learners_A A) = nat T \<and> length (w_A A) = nat T
      \<and> (\<forall>t < nat T. round_ok weak T X y A t)"
proof -
  from AdaBoost_fit_upto_progress [of T y X weak "nat T", OF assms] obtain A mu where
    "AdaBoost_fit_upto (nat T) weak T X y = Inr (A, mu)"
    "length (learners_A A) = nat T" "length (w_A A) = nat T"
    "\<forall>t < nat T. round_ok weak T X y A t" by auto
  then show ?thesis by (auto simp: AdaBoost_fit_def)
qed

theorem AdaBoost_fit_rounds_witness:
  "(0 :: int) \<le> 1 \<and> length [1, -1 :: real] = nrows \<lparr>ncols = 1, rows = [[0], [1]]\<rparr>
   \<and> 0 < nrows \<lparr>ncols = 1, rows = [[0], [1]]\<rparr>
   \<and> (\<exists>A. AdaBoost_fit (\<lambda>X y mu r. 1) 1 \<lparr>ncols = 1, rows = [[0], [1]]\<rparr> [1, -1] = Inr A
      \<and> length (learners_A A) = nat 1 \<and> length (w_A A) = nat 1
      \<and> (\<forall>t < nat 1. round_ok (\<lambda>X y mu r. 1) 1 \<lparr>ncols = 1, rows = [[0], [1]]\<rparr> [1, -1] A t))"
proof -
  let ?X = "\<lparr>ncols = 1, rows = [[0 :: real], [1]]\<rparr>"
  let ?weak = "(\<lambda>X y mu r. 1) :: weak_learner"
  have h1: "(0 :: int) \<le> 1" by simp
  have h2: "length [1, -1 :: real] = nrows ?X" by (simp add: nrows_def)
  have h3: "0 < nrows ?X" by (simp add: nrows_def)
  have h4: "\<forall>mu. simplex (nrows ?X) mu \<and> positive mu \<longrightarrow>
          0 < weighted_error mu [1, -1] (map (?weak ?X [1, -1] mu) (rows ?X))
        \<and> weighted_error mu [1, -1] (map (?weak ?X [1, -1] mu) (rows ?X)) < 1"
  proof (intro allI impI)
    fix mu assume a: "simplex (nrows ?X) mu \<and> positive mu"
    then have "length mu = 2" by (simp add: simplex_def nrows_def)
    then obtain a b where mu: "mu = [a, b]"
      by (auto simp: length_Suc_conv eval_nat_numeral)
    from a mu have "0 < a" "0 < b" "a + b = 1"
      by (simp_all add: simplex_def positive_def)
    then show "0 < weighted_error mu [1, -1] (map (?weak ?X [1, -1] mu) (rows ?X))
        \<and> weighted_error mu [1, -1] (map (?weak ?X [1, -1] mu) (rows ?X)) < 1"
      by (simp add: mu weighted_error_def)
  qed
  from AdaBoost_fit_rounds [of 1 "[1, -1]" ?X ?weak, OF h1 h2 h3 h4] h1 h2 h3
  show ?thesis by blast
qed

section \<open>The kernel Perceptron with the standard kernel\<close>

lemma length_implied_sum:
  "\<forall>e \<in> set trip. length (snd (snd e)) = d \<Longrightarrow> length (implied_sum d trip) = d"
  by (induction trip) (auto simp: zeros_def vadd_def smul_def)

lemma inner_zeros: "inner (zeros d) x = 0"
proof -
  have "map2 (*) (replicate d (0 :: real)) x = replicate (min d (length x)) 0"
    by (induction d arbitrary: x) (auto simp: zip_Cons1 split: list.splits)
  then show ?thesis by (simp add: inner_def zeros_def sum_list_replicate)
qed

lemma inner_vadd_smul:
  "length u = length x \<Longrightarrow> length v = length x \<Longrightarrow>
   inner (vadd (smul c u) v) x = c * inner u x + inner v x"
proof (induction x arbitrary: u v)
  case Nil
  then show ?case by (simp add: inner_def vadd_def smul_def)
next
  case (Cons a x)
  then obtain u0 u' v0 v' where uv: "u = u0 # u'" "v = v0 # v'"
    by (cases u; cases v) auto
  with Cons.prems have "length u' = length x" "length v' = length x" by simp_all
  from Cons.IH [OF this] show ?case
    by (simp add: uv inner_def vadd_def smul_def algebra_simps)
qed

lemma kernel_sum_standard:
  assumes "\<forall>e \<in> set trip. length (snd (snd e)) = length x"
  shows "kernel_sum K_standard trip x = Inr (inner (implied_sum (length x) trip) x)"
  using assms
proof (induction trip)
  case Nil
  then show ?case by (simp add: inner_zeros)
next
  case (Cons e trip)
  obtain a yk xk where e: "e = (a, yk, xk)" by (cases e)
  have len: "length xk = length x" using Cons.prems e by simp
  have rest: "\<forall>e \<in> set trip. length (snd (snd e)) = length x" using Cons.prems by simp
  have lr: "length (implied_sum (length x) trip) = length x"
    using rest by (rule length_implied_sum)
  show ?case
    using Cons.IH [OF rest]
    by (simp add: e K_standard_def dot_same len inner_vadd_smul [OF len lr])
qed

lemma vadd_nth: "i < length u \<Longrightarrow> i < length v \<Longrightarrow> vadd u v ! i = u ! i + v ! i"
  by (simp add: vadd_def)

lemma smul_nth: "i < length v \<Longrightarrow> smul c v ! i = c * v ! i"
  by (simp add: smul_def)

lemma length_vadd: "length (vadd u v) = min (length u) (length v)"
  by (simp add: vadd_def)

lemma length_smul: "length (smul c v) = length v"
  by (simp add: smul_def)

lemma implied_sum_update:
  assumes "length alpha = length ys" and "length ys = length xs"
    and "\<forall>x \<in> set xs. length x = d" and "k < length xs"
  shows "implied_sum d (zip (alpha[k := alpha ! k + eta]) (zip ys xs))
     = vadd (implied_sum d (zip alpha (zip ys xs))) (smul (eta * ys ! k) (xs ! k))"
  using assms
proof (induction alpha arbitrary: ys xs k)
  case Nil
  then show ?case by simp
next
  case (Cons a alpha)
  then obtain y0 ys' x0 xs' where yx: "ys = y0 # ys'" "xs = x0 # xs'"
    by (cases ys; cases xs) auto
  have lens: "length alpha = length ys'" "length ys' = length xs'"
    and xs': "\<forall>x \<in> set xs'. length x = d" and x0: "length x0 = d"
    using Cons.prems yx by simp_all
  have "\<forall>e \<in> set (zip alpha (zip ys' xs')). length (snd (snd e)) = d"
    using xs' by (auto dest!: set_zip_rightD)
  then have lr: "length (implied_sum d (zip alpha (zip ys' xs'))) = d"
    by (rule length_implied_sum)
  show ?case
  proof (cases k)
    case 0
    show ?thesis
      by (rule nth_equalityI)
         (simp_all add: yx 0 length_vadd length_smul vadd_nth smul_nth lr x0 algebra_simps)
  next
    case (Suc k')
    then have k': "k' < length xs'" using Cons.prems yx by simp
    have lk: "length (xs' ! k') = d" using xs' k' by simp
    have "implied_sum d (zip ((a # alpha)[k := (a # alpha) ! k + eta]) (zip ys xs))
        = vadd (smul (a * y0) x0)
            (vadd (implied_sum d (zip alpha (zip ys' xs'))) (smul (eta * ys' ! k') (xs' ! k')))"
      by (simp add: yx Suc Cons.IH [OF lens xs' k'])
    also have "\<dots> = vadd (implied_sum d (zip (a # alpha) (zip ys xs))) (smul (eta * ys ! k) (xs ! k))"
      by (rule nth_equalityI)
         (simp_all add: yx Suc length_vadd length_smul vadd_nth smul_nth lr x0 lk algebra_simps)
    finally show ?thesis .
  qed
qed

lemma implied_sum_zeros:
  assumes "\<forall>x \<in> set xs. length x = d"
  shows "implied_sum d (zip (zeros n) (zip ys xs)) = zeros d"
  using assms
proof (induction n arbitrary: ys xs)
  case 0
  then show ?case by (simp add: zeros_def)
next
  case (Suc n)
  show ?case
  proof (cases "zip ys xs")
    case Nil
    then show ?thesis by (auto simp: zeros_def)
  next
    case (Cons e es)
    then obtain y0 ys' x0 xs' where yx: "ys = y0 # ys'" "xs = x0 # xs'"
      by (cases ys; cases xs) auto
    have xs': "\<forall>x \<in> set xs'. length x = d" and x0: "length x0 = d"
      using Suc.prems yx by simp_all
    have "implied_sum d (zip (zeros n) (zip ys' xs')) = zeros d"
      using Suc.IH [OF xs'] .
    then show ?thesis
      using x0 by (simp add: yx zeros_def vadd_def smul_def map2_map_map zip_replicate2
          list_eq_iff_nth_eq)
  qed
qed

lemma wf_rows_length: "wf_matrix X \<Longrightarrow> r \<in> set (rows X) \<Longrightarrow> length r = ncols X"
  by (simp add: wf_matrix_def list_all_iff)

lemma triples_length:
  assumes "wf_matrix X"
  shows "\<forall>e \<in> set (zip alpha (zip y (rows X))). length (snd (snd e)) = ncols X"
proof
  fix e assume "e \<in> set (zip alpha (zip y (rows X)))"
  then have "(fst e, fst (snd e), snd (snd e)) \<in> set (zip alpha (zip y (rows X)))" by simp
  then have "(fst (snd e), snd (snd e)) \<in> set (zip y (rows X))" by (rule set_zip_rightD)
  then have "snd (snd e) \<in> set (rows X)" by (rule set_zip_rightD)
  then show "length (snd (snd e)) = ncols X" using assms by (rule wf_rows_length [rotated])
qed

lemma length_implied_w: "wf_matrix X \<Longrightarrow> length (implied_w X y alpha) = ncols X"
  unfolding implied_w_def by (rule length_implied_sum) (rule triples_length)

lemma KernelPerceptron_predict_standard:
  assumes "wf_matrix X" and "length x = ncols X"
  shows "KernelPerceptron_predict K_standard X y alpha b x
     = Perceptron_predict1 (implied_w X y alpha) b x"
proof -
  have t: "\<forall>e \<in> set (zip alpha (zip y (rows X))). length (snd (snd e)) = length x"
    using triples_length [OF assms(1)] assms(2) by simp
  have lw: "length x = length (implied_w X y alpha)"
    using length_implied_w [OF assms(1)] assms(2) by simp
  have "kernel_sum K_standard (zip alpha (zip y (rows X))) x
      = Inr (inner (implied_w X y alpha) x)"
    using kernel_sum_standard [OF t] by (simp add: implied_w_def assms(2))
  then have "KernelPerceptron_predict K_standard X y alpha b x
      = Inr (sign_pm (inner (implied_w X y alpha) x + b))"
    by (simp add: KernelPerceptron_predict_def KernelPerceptron_net_input_def sign_pm_def)
  then show ?thesis by (simp only: predict1_sign [OF lw])
qed

lemma implied_w_update:
  assumes "wf_matrix X" and "length alpha = nrows X" and "length y = nrows X" and "k < nrows X"
  shows "implied_w X y (alpha[k := alpha ! k + eta])
     = vadd (implied_w X y alpha) (smul (eta * y ! k) (rows X ! k))"
proof -
  have "\<forall>x \<in> set (rows X). length x = ncols X"
    using assms(1) by (simp add: wf_matrix_def list_all_iff)
  then show ?thesis
    unfolding implied_w_def
    using assms by (intro implied_sum_update) (simp_all add: nrows_def)
qed

lemma kernel_epoch_standard:
  assumes "wf_matrix X" and "length y = nrows X"
  shows "\<forall>k \<in> set ks. k < nrows X \<Longrightarrow> length alpha = nrows X \<Longrightarrow>
     \<exists>alpha' b' c'. kernel_epoch K_standard eta X y ks (alpha, b, c) = Inr (alpha', b', c')
       \<and> length alpha' = nrows X
       \<and> epoch eta (map (\<lambda>k. (rows X ! k, y ! k)) ks) (implied_w X y alpha, b, c)
           = Inr (implied_w X y alpha', b', c')"
proof (induction ks arbitrary: alpha b c)
  case Nil
  then show ?case by simp
next
  case (Cons k ks)
  have k: "k < nrows X" and rest: "\<forall>k \<in> set ks. k < nrows X" using Cons.prems(1) by simp_all
  have lx: "length (rows X ! k) = ncols X"
    using assms(1) k by (simp add: wf_matrix_def list_all_length nrows_def)
  note pred = KernelPerceptron_predict_standard [OF assms(1) lx, of y alpha b]
  have lw: "length (rows X ! k) = length (implied_w X y alpha)"
    using lx length_implied_w [OF assms(1)] by simp
  let ?p = "sign_pm (inner (implied_w X y alpha) (rows X ! k) + b)"
  have p1: "Perceptron_predict1 (implied_w X y alpha) b (rows X ! k) = Inr ?p"
    using predict1_sign [OF lw] .
  show ?case
  proof (cases "y ! k * ?p < 0")
    case True
    let ?alpha1 = "alpha[k := alpha ! k + eta]"
    have l1: "length ?alpha1 = nrows X" using Cons.prems(2) by simp
    from Cons.IH [OF rest l1, of "b + eta * y ! k" "c + 1"] obtain alpha' b' c' where
      r: "kernel_epoch K_standard eta X y ks (?alpha1, b + eta * y ! k, c + 1) = Inr (alpha', b', c')"
         "length alpha' = nrows X"
         "epoch eta (map (\<lambda>k. (rows X ! k, y ! k)) ks) (implied_w X y ?alpha1, b + eta * y ! k, c + 1)
           = Inr (implied_w X y alpha', b', c')"
      by blast
    have "kernel_epoch K_standard eta X y (k # ks) (alpha, b, c) = Inr (alpha', b', c')"
      using r(1) True by (simp add: pred p1)
    moreover have "epoch eta (map (\<lambda>k. (rows X ! k, y ! k)) (k # ks)) (implied_w X y alpha, b, c)
           = Inr (implied_w X y alpha', b', c')"
      using r(3) True
      by (simp add: p1 implied_w_update [OF assms(1) Cons.prems(2) assms(2) k])
    ultimately show ?thesis using r(2) by blast
  next
    case False
    from Cons.IH [OF rest Cons.prems(2), of b c] obtain alpha' b' c' where
      r: "kernel_epoch K_standard eta X y ks (alpha, b, c) = Inr (alpha', b', c')"
         "length alpha' = nrows X"
         "epoch eta (map (\<lambda>k. (rows X ! k, y ! k)) ks) (implied_w X y alpha, b, c)
           = Inr (implied_w X y alpha', b', c')"
      by blast
    have "kernel_epoch K_standard eta X y (k # ks) (alpha, b, c) = Inr (alpha', b', c')"
      using r(1) False by (simp add: pred p1)
    moreover have "epoch eta (map (\<lambda>k. (rows X ! k, y ! k)) (k # ks)) (implied_w X y alpha, b, c)
           = Inr (implied_w X y alpha', b', c')"
      using r(3) False by (simp add: p1)
    ultimately show ?thesis using r(2) by blast
  qed
qed

lemma zip_take_upt:
  assumes "length ys = length xs" and "j \<le> length xs"
  shows "take j (zip xs ys) = map (\<lambda>k. (xs ! k, ys ! k)) [0..<j]"
  using assms by (intro nth_equalityI) simp_all

lemma kernel_fit_loop_standard:
  assumes "wf_matrix X" and "length y = nrows X"
  shows "length (alpha_K P) = nrows X \<Longrightarrow>
     \<exists>S. kernel_fit_loop m K_standard eta X y P = Inr S \<and> length (alpha_K S) = nrows X
       \<and> fit_loop m eta (zip (rows X) y) (primal_of X y P) = Inr (primal_of X y S)"
proof (induction m arbitrary: P)
  case 0
  then show ?case by simp
next
  case (Suc m)
  have ex: "zip (rows X) y = map (\<lambda>k. (rows X ! k, y ! k)) [0..<nrows X]"
    using zip_take_upt [of y "rows X" "nrows X"] assms(2) by (simp add: nrows_def)
  have ks: "\<forall>k \<in> set [0..<nrows X]. k < nrows X" by simp
  from kernel_epoch_standard [OF assms ks Suc.prems, of eta "b_K P" 0]
  obtain alpha' b' c' where
    e: "kernel_epoch K_standard eta X y [0..<nrows X] (alpha_K P, b_K P, 0) = Inr (alpha', b', c')"
       "length alpha' = nrows X"
       "epoch eta (zip (rows X) y) (implied_w X y (alpha_K P), b_K P, 0)
           = Inr (implied_w X y alpha', b', c')"
    unfolding ex by blast
  show ?case
  proof (cases "c' = 0")
    case True
    let ?S = "P\<lparr>alpha_K := alpha', b_K := b'\<rparr>"
    have "kernel_fit_loop (Suc m) K_standard eta X y P = Inr ?S"
      by (simp add: e(1) True)
    moreover have "fit_loop (Suc m) eta (zip (rows X) y) (primal_of X y P)
        = Inr (primal_of X y ?S)"
      using e(3) True by (simp add: primal_of_def)
    moreover have "length (alpha_K ?S) = nrows X" using e(2) by simp
    ultimately show ?thesis by blast
  next
    case False
    let ?P1 = "P\<lparr>alpha_K := alpha', b_K := b', errors_K := errors_K P @ [c']\<rparr>"
    have l1: "length (alpha_K ?P1) = nrows X" using e(2) by simp
    from Suc.IH [OF l1] obtain S where
      S: "kernel_fit_loop m K_standard eta X y ?P1 = Inr S" "length (alpha_K S) = nrows X"
         "fit_loop m eta (zip (rows X) y) (primal_of X y ?P1) = Inr (primal_of X y S)"
      by blast
    have "kernel_fit_loop (Suc m) K_standard eta X y P = Inr S"
      using S(1) by (simp add: e(1) False)
    moreover have "fit_loop (Suc m) eta (zip (rows X) y) (primal_of X y P)
        = Inr (primal_of X y S)"
      using e(3) S(3) False by (simp add: primal_of_def)
    ultimately show ?thesis using S(2) by blast
  qed
qed

text \<open>
  Claim C2. On a rectangular \<open>X\<close> with one label per row, the kernel Perceptron
  with \<open>K_standard\<close> and the Perceptron with bias, run with the same \<open>eta\<close> and
  \<open>n_iter\<close>, end in corresponding states: the weight vector the dual
  coefficients imply, \<open>\<Sum>\<^sub>k alpha\<^sub>k * y\<^sub>k * x\<^sub>k\<close>, is the primal weight vector, and
  the bias and the error counts are equal; this holds for every pass limit, so
  after every pass. Inside a pass the two stay in step after every example
  (every prefix \<open>[0..<j]\<close> of the scan, from any pair of corresponding states),
  and corresponding states predict the same label for every point.
\<close>

theorem KernelPerceptron_standard_is_Perceptron:
  assumes "wf_matrix X" and "length y = nrows X"
  shows "(\<exists>S. KernelPerceptron_fit K_standard eta n_iter X y = Inr S
            \<and> Perceptron_fit eta n_iter X y = Inr (primal_of X y S))
      \<and> (\<forall>alpha b c j. length alpha = nrows X \<and> j \<le> nrows X \<longrightarrow>
            (\<exists>alpha' b' c'.
                kernel_epoch K_standard eta X y [0..<j] (alpha, b, c) = Inr (alpha', b', c')
              \<and> epoch eta (take j (zip (rows X) y)) (implied_w X y alpha, b, c)
                  = Inr (implied_w X y alpha', b', c')))
      \<and> (\<forall>alpha b x. length x = ncols X \<longrightarrow>
            KernelPerceptron_predict K_standard X y alpha b x
              = Perceptron_predict1 (implied_w X y alpha) b x)"
proof (intro conjI allI impI)
  let ?P0 = "\<lparr>alpha_K = zeros (nrows X), b_K = 0, errors_K = []\<rparr>"
  have "length (alpha_K ?P0) = nrows X" by (simp add: zeros_def)
  from kernel_fit_loop_standard [OF assms this, of "nat n_iter" eta] obtain S where
    S: "kernel_fit_loop (nat n_iter) K_standard eta X y ?P0 = Inr S"
       "fit_loop (nat n_iter) eta (zip (rows X) y) (primal_of X y ?P0) = Inr (primal_of X y S)"
    by blast
  have "\<forall>x \<in> set (rows X). length x = ncols X"
    using assms(1) by (simp add: wf_matrix_def list_all_iff)
  then have "implied_w X y (zeros (nrows X)) = zeros (ncols X)"
    unfolding implied_w_def by (rule implied_sum_zeros)
  then have p0: "primal_of X y ?P0 = \<lparr>w_P = zeros (ncols X), b_P = 0, errors_P = []\<rparr>"
    by (simp add: primal_of_def)
  show "\<exists>S. KernelPerceptron_fit K_standard eta n_iter X y = Inr S
            \<and> Perceptron_fit eta n_iter X y = Inr (primal_of X y S)"
    using S p0 assms(2) by (simp add: KernelPerceptron_fit_def Perceptron_fit_def)
next
  fix alpha :: vec and b :: real and c :: nat and j :: nat
  assume a: "length alpha = nrows X \<and> j \<le> nrows X"
  then have ks: "\<forall>k \<in> set [0..<j]. k < nrows X" by simp
  have tk: "take j (zip (rows X) y) = map (\<lambda>k. (rows X ! k, y ! k)) [0..<j]"
    using zip_take_upt [of y "rows X" j] assms(2) a by (simp add: nrows_def)
  from kernel_epoch_standard [OF assms ks, of alpha eta b c] a
  show "\<exists>alpha' b' c'.
                kernel_epoch K_standard eta X y [0..<j] (alpha, b, c) = Inr (alpha', b', c')
              \<and> epoch eta (take j (zip (rows X) y)) (implied_w X y alpha, b, c)
                  = Inr (implied_w X y alpha', b', c')"
    unfolding tk by blast
next
  fix alpha :: vec and b :: real and x :: vec
  assume "length x = ncols X"
  then show "KernelPerceptron_predict K_standard X y alpha b x
              = Perceptron_predict1 (implied_w X y alpha) b x"
    using assms(1) by (rule KernelPerceptron_predict_standard [rotated])
qed

theorem KernelPerceptron_standard_is_Perceptron_witness:
  "wf_matrix \<lparr>ncols = 1, rows = [[1], [2]]\<rparr>
   \<and> length [-1, 1 :: real] = nrows \<lparr>ncols = 1, rows = [[1], [2]]\<rparr>
   \<and> KernelPerceptron_fit K_standard (1 / 2) 3 \<lparr>ncols = 1, rows = [[1], [2]]\<rparr> [-1, 1]
       = Inr \<lparr>alpha_K = [3 / 2, 1], b_K = - (1 / 2), errors_K = [2, 2, 1]\<rparr>
   \<and> Perceptron_fit (1 / 2) 3 \<lparr>ncols = 1, rows = [[1], [2]]\<rparr> [-1, 1]
       = Inr (primal_of \<lparr>ncols = 1, rows = [[1], [2]]\<rparr> [-1, 1]
                \<lparr>alpha_K = [3 / 2, 1], b_K = - (1 / 2), errors_K = [2, 2, 1]\<rparr>)
   \<and> primal_of \<lparr>ncols = 1, rows = [[1], [2]]\<rparr> [-1, 1]
         \<lparr>alpha_K = [3 / 2, 1], b_K = - (1 / 2), errors_K = [2, 2, 1]\<rparr>
       = \<lparr>w_P = [1 / 2], b_P = - (1 / 2), errors_P = [2, 2, 1]\<rparr>"
proof -
  let ?X = "\<lparr>ncols = 1, rows = [[1 :: real], [2]]\<rparr>"
  have h1: "wf_matrix ?X" by (simp add: wf_matrix_def)
  have h2: "length [-1, 1 :: real] = nrows ?X" by (simp add: nrows_def)
  have k: "KernelPerceptron_fit K_standard (1 / 2) 3 ?X [-1, 1]
       = Inr \<lparr>alpha_K = [3 / 2, 1], b_K = - (1 / 2), errors_K = [2, 2, 1]\<rparr>"
    by (simp add: KernelPerceptron_fit_def nrows_def zeros_def eval_nat_numeral upt_rec
        KernelPerceptron_predict_def KernelPerceptron_net_input_def K_standard_def dot_def)
  have p: "primal_of ?X [-1, 1]
         \<lparr>alpha_K = [3 / 2, 1], b_K = - (1 / 2), errors_K = [2, 2, 1]\<rparr>
       = \<lparr>w_P = [1 / 2], b_P = - (1 / 2), errors_P = [2, 2, 1]\<rparr>"
    by (simp add: primal_of_def implied_w_def vadd_def smul_def zeros_def)
  from KernelPerceptron_standard_is_Perceptron [OF h1 h2, of "1 / 2" 3] k
  have "Perceptron_fit (1 / 2) 3 ?X [-1, 1]
       = Inr (primal_of ?X [-1, 1]
                \<lparr>alpha_K = [3 / 2, 1], b_K = - (1 / 2), errors_K = [2, 2, 1]\<rparr>)"
    by auto
  with h1 h2 k p show ?thesis by blast
qed

section \<open>Evaluation by minibatches\<close>

lemma collect_all_Inr:
  "\<forall>x \<in> set xs. \<exists>a. f x = Inr a \<Longrightarrow>
   \<exists>as. collect (map f xs) = Inr as \<and> length as = length xs"
proof (induction xs)
  case Nil
  then show ?case by simp
next
  case (Cons x xs)
  then obtain a as where "f x = Inr a" "collect (map f xs) = Inr as" "length as = length xs"
    by auto
  then show ?case by simp
qed

lemma int_to_onehot_shape:
  assumes "\<forall>t \<in> set y. - int num_labels \<le> t \<and> t < int num_labels"
  shows "\<exists>Y. int_to_onehot y num_labels = Inr Y \<and> nrows Y = length y \<and> ncols Y = num_labels"
proof -
  have "\<forall>t \<in> set y. \<exists>a. onehot_row num_labels t = Inr a"
    using assms by (auto simp: onehot_row_def Let_def)
  from collect_all_Inr [OF this] obtain rs where
    "collect (map (onehot_row num_labels) y) = Inr rs" "length rs = length y" by blast
  then show ?thesis by (simp add: int_to_onehot_def nrows_def)
qed

lemma mse_acc_step_ok:
  assumes fwd: "forward (fst batch) = Inr (o_h, probas)"
    and shape: "nrows probas = length (snd batch)" "ncols probas = num_labels"
    and nonempty: "\<forall>r \<in> set (rows probas). r \<noteq> []"
    and labels: "\<forall>t \<in> set (snd batch). - int num_labels \<le> t \<and> t < int num_labels"
  shows "\<exists>s'. mse_acc_step forward num_labels batch s = Inr s'"
proof -
  have "\<forall>r \<in> set (rows probas). \<exists>a. argmax r = Inr a"
    using nonempty by (auto simp: argmax_def split: list.splits)
  from collect_all_Inr [OF this] obtain ps where
    ps: "collect (map argmax (rows probas)) = Inr ps" by blast
  from int_to_onehot_shape [OF labels] obtain Y where
    Y: "int_to_onehot (snd batch) num_labels = Inr Y" "nrows Y = length (snd batch)"
      "ncols Y = num_labels" by blast
  have el: "\<exists>d. elementwise (-) Y probas = Inr d"
    using Y shape by (simp add: elementwise_def)
  then obtain d where d: "elementwise (-) Y probas = Inr d" by blast
  show ?thesis
    by (simp add: mse_acc_step_def Let_def ebind_def fwd ps Y(1) d)
qed

lemma mse_acc_loop_ok:
  assumes "\<forall>it \<in> set items. \<exists>batch. it = Inr batch \<and> (\<forall>s. \<exists>s'. mse_acc_step forward num_labels batch s = Inr s')"
  shows "\<exists>s' j. mse_acc_loop forward num_labels items i (s, v) = Inr (s', j)
      \<and> (items \<noteq> [] \<longrightarrow> j \<noteq> None) \<and> (items = [] \<longrightarrow> j = v)"
  using assms
proof (induction items arbitrary: i s v)
  case Nil
  show ?case by (intro exI [of _ s] exI [of _ v]) simp
next
  case (Cons it items)
  from Cons.prems have "\<exists>batch. it = Inr batch
      \<and> (\<forall>s. \<exists>s'. mse_acc_step forward num_labels batch s = Inr s')"
    by (simp del: split_paired_All split_paired_Ex)
  then obtain batch where it: "it = Inr batch"
    and st: "\<forall>s. \<exists>s'. mse_acc_step forward num_labels batch s = Inr s'" by blast
  from st obtain s1 where s1: "mse_acc_step forward num_labels batch s = Inr s1" by blast
  have rest: "\<forall>it \<in> set items. \<exists>batch. it = Inr batch \<and> (\<forall>s. \<exists>s'. mse_acc_step forward num_labels batch s = Inr s')"
    using Cons.prems by (simp del: split_paired_All split_paired_Ex)
  from Cons.IH [OF rest, of "i + 1" s1 "Some i"] obtain s' j where
    r: "mse_acc_loop forward num_labels items (i + 1) (s1, Some i) = Inr (s', j)"
      "items \<noteq> [] \<longrightarrow> j \<noteq> None" "items = [] \<longrightarrow> j = Some i" by blast
  have "mse_acc_loop forward num_labels (it # items) i (s, v) = Inr (s', j)"
    using r(1) by (simp add: it s1)
  moreover have "j \<noteq> None" using r(2,3) by (cases "items = []") auto
  ultimately show ?case by blast
qed

lemma add_bias_shape:
  assumes "has_shape A n m" and "length b = m"
  shows "\<exists>B. add_bias A b = Inr B \<and> has_shape B n m"
proof -
  have "\<forall>r \<in> set (rows A). length r = m" and "ncols A = m" and "length (rows A) = n"
    using assms(1) by (simp_all add: has_shape_def wf_matrix_def list_all_iff nrows_def)
  then show ?thesis
    using assms(2)
    by (simp add: add_bias_def has_shape_def wf_matrix_def list_all_iff nrows_def)
qed

text \<open>
  A network whose arrays have the shapes of its topology runs \<open>forward\<close> on
  every batch of the right width and returns activations of the batch's height.
\<close>

lemma NeuralNetMLP_forward_shape:
  assumes x: "has_shape x m F"
    and win: "has_shape (weight_in net) H F" and bin: "length (bias_in net) = H"
    and wout: "has_shape (weight_out net) C H" and bout: "length (bias_out net) = C"
  shows "\<exists>o_h o_out. NeuralNetMLP_forward net x = Inr (o_h, o_out)
      \<and> has_shape o_h m H \<and> has_shape o_out m C"
proof -
  from mat_T_shape [OF win] have winT: "has_shape (mat_T (weight_in net)) F H" by blast
  from mat_dot_shape [OF x winT] obtain xw where
    xw: "mat_dot x (mat_T (weight_in net)) = Inr xw" "has_shape xw m H" by blast
  from add_bias_shape [OF xw(2) bin] obtain a_h where
    a_h: "add_bias xw (bias_in net) = Inr a_h" "has_shape a_h m H" by blast
  from mat_map_shape [OF a_h(2), of sigmoid] have
    o_h: "has_shape (mat_map sigmoid a_h) m H" by blast
  from mat_T_shape [OF wout] have woutT: "has_shape (mat_T (weight_out net)) H C" by blast
  from mat_dot_shape [OF o_h woutT] obtain hw where
    hw: "mat_dot (mat_map sigmoid a_h) (mat_T (weight_out net)) = Inr hw" "has_shape hw m C"
    by blast
  from add_bias_shape [OF hw(2) bout] obtain a_out where
    a_out: "add_bias hw (bias_out net) = Inr a_out" "has_shape a_out m C" by blast
  from mat_map_shape [OF a_out(2), of sigmoid] have
    o_out: "has_shape (mat_map sigmoid a_out) m C" by blast
  have "NeuralNetMLP_forward net x = Inr (mat_map sigmoid a_h, mat_map sigmoid a_out)"
    by (simp add: NeuralNetMLP_forward_def ebind_def Let_def xw(1) a_h(1) hw(1) a_out(1))
  with o_h o_out show ?thesis by blast
qed

lemma take_rows_shape:
  assumes "wf_matrix X" and "\<forall>i \<in> set idx. i < nrows X"
  shows "has_shape (take_rows X idx) (length idx) (ncols X)"
  using assms
  by (auto simp: has_shape_def take_rows_def nrows_def wf_matrix_def list_all_iff)

text \<open>
  Claim C10, as amended. The loop body never runs, \<open>i\<close> is unbound at
  \<open>mse/(i+1)\<close> and the call fails with \<open>UnboundLocalError\<close>, whatever the network,
  when \<open>X\<close> has fewer rows than \<open>minibatch_size\<close> and also when \<open>minibatch_size\<close>
  is negative; a \<open>minibatch_size\<close> of zero makes \<open>range\<close> raise \<open>ValueError\<close>. When
  \<open>1 \<le> minibatch_size \<le> n\<close>, \<open>X\<close> is rectangular with one label per row, the
  labels are valid class indices and \<open>forward\<close> returns class scores of shape
  \<open>(minibatch_size, num_labels)\<close> on every batch-shaped input, the call returns
  a pair.
\<close>

theorem compute_mse_and_acc_defined:
  "(shuffled (nrows X) indices \<and> (int (nrows X) < minibatch_size \<or> minibatch_size < 0)
      \<longrightarrow> compute_mse_and_acc forward indices X y num_labels minibatch_size
            = Inl UnboundLocalError)
   \<and> (minibatch_size = 0
      \<longrightarrow> compute_mse_and_acc forward indices X y num_labels minibatch_size
            = Inl ValueError)
   \<and> (wf_matrix X \<and> shuffled (nrows X) indices \<and> length y = nrows X
        \<and> 1 \<le> m \<and> m \<le> nrows X \<and> minibatch_size = int m
        \<and> (\<forall>t \<in> set y. - int num_labels \<le> t \<and> t < int num_labels)
        \<and> (\<forall>F. has_shape F m (ncols X) \<longrightarrow>
              (\<exists>o_h probas. forward F = Inr (o_h, probas) \<and> has_shape probas m num_labels))
      \<longrightarrow> (\<exists>mse acc. compute_mse_and_acc forward indices X y num_labels minibatch_size
            = Inr (mse, acc)))"
proof (intro conjI impI)
  assume a: "shuffled (nrows X) indices \<and> (int (nrows X) < minibatch_size \<or> minibatch_size < 0)"
  then have len: "length indices = nrows X" by (simp add: shuffled_length)
  have "py_range 0 (int (length indices) - minibatch_size + 1) minibatch_size = Inr []"
    using a len by (auto simp: py_range_def)
  then show "compute_mse_and_acc forward indices X y num_labels minibatch_size
            = Inl UnboundLocalError"
    by (simp add: compute_mse_and_acc_def minibatch_generator_def)
next
  assume "minibatch_size = 0"
  then show "compute_mse_and_acc forward indices X y num_labels minibatch_size
            = Inl ValueError"
    by (simp add: compute_mse_and_acc_def minibatch_generator_def py_range_def)
next
  assume a: "wf_matrix X \<and> shuffled (nrows X) indices \<and> length y = nrows X
        \<and> 1 \<le> m \<and> m \<le> nrows X \<and> minibatch_size = int m
        \<and> (\<forall>t \<in> set y. - int num_labels \<le> t \<and> t < int num_labels)
        \<and> (\<forall>F. has_shape F m (ncols X) \<longrightarrow>
              (\<exists>o_h probas. forward F = Inr (o_h, probas) \<and> has_shape probas m num_labels))"
  let ?n = "nrows X"
  let ?items = "minibatch_generator indices X y (int m)"
  from a have wf: "wf_matrix X" and sh: "shuffled ?n indices" and ly: "length y = ?n"
    and m1: "1 \<le> m" and mn: "m \<le> ?n" and M: "minibatch_size = int m"
    and labels: "\<forall>t \<in> set y. - int num_labels \<le> t \<and> t < int num_labels"
    and fwd: "\<forall>F. has_shape F m (ncols X) \<longrightarrow>
              (\<exists>o_h probas. forward F = Inr (o_h, probas) \<and> has_shape probas m num_labels)"
    by blast+
  note gen = minibatch_generator_explicit [OF sh ly m1 mn]
  have len: "length indices = ?n" using sh by (rule shuffled_length)
  have set: "set indices = {0..<?n}" using sh by (simp add: shuffled_def)
  have "y \<noteq> []" using ly m1 mn by auto
  then obtain t0 where "t0 \<in> set y" by (cases y) auto
  with labels have C: "0 < num_labels" by fastforce
  have items: "\<forall>it \<in> set ?items. \<exists>batch. it = Inr batch
      \<and> (\<forall>s. \<exists>s'. mse_acc_step forward num_labels batch s = Inr s')"
  proof
    fix it assume "it \<in> set ?items"
    then obtain k where k: "k < ?n div m"
      and it: "it = Inr (take_rows X (take m (drop (k * m) indices)),
                       map (\<lambda>i. y ! i) (take m (drop (k * m) indices)))"
      by (auto simp: gen)
    let ?idx = "take m (drop (k * m) indices)"
    let ?batch = "(take_rows X ?idx, map (\<lambda>i. y ! i) ?idx)"
    have lidx: "length ?idx = m" using batch_idx_props(1) [OF k len m1] .
    have sub: "set ?idx \<subseteq> set indices"
      by (meson set_take_subset set_drop_subset subset_trans)
    then have "\<forall>i \<in> set ?idx. i < ?n" using set by auto
    from take_rows_shape [OF wf this] have "has_shape (fst ?batch) m (ncols X)"
      using lidx by simp
    with fwd obtain o_h probas where f: "forward (fst ?batch) = Inr (o_h, probas)"
      "has_shape probas m num_labels"
      by blast
    have f2: "nrows probas = length (snd ?batch)" and f3: "ncols probas = num_labels"
      using f(2) lidx by (simp_all add: has_shape_def)
    have f4: "\<forall>r \<in> set (rows probas). r \<noteq> []"
      using f(2) C by (auto simp: has_shape_def wf_matrix_def list_all_iff)
    have "set (snd ?batch) \<subseteq> set y"
      using sub set ly by auto
    then have lab: "\<forall>t \<in> set (snd ?batch). - int num_labels \<le> t \<and> t < int num_labels"
      using labels by blast
    from mse_acc_step_ok [of forward ?batch o_h probas num_labels, OF f(1) f2 f3 f4 lab]
    have "\<forall>s. \<exists>s'. mse_acc_step forward num_labels ?batch s = Inr s'" by blast
    with it show "\<exists>batch. it = Inr batch
      \<and> (\<forall>s. \<exists>s'. mse_acc_step forward num_labels batch s = Inr s')" by blast
  qed
  have "1 \<le> ?n div m" using m1 mn by (simp add: div_greater_zero_iff Suc_le_eq)
  then have ne: "?items \<noteq> []" by (auto simp: gen)
  from mse_acc_loop_ok [OF items, of 0 "(0, 0, 0)" None] ne obtain s' i where
    "mse_acc_loop forward num_labels ?items 0 ((0, 0, 0), None) = Inr (s', Some i)"
    by auto
  then show "\<exists>mse acc. compute_mse_and_acc forward indices X y num_labels minibatch_size
            = Inr (mse, acc)"
    by (simp add: compute_mse_and_acc_def M)
qed

text \<open>
  The network of the witness and of the counterexample: one input, one hidden
  unit and one class, all weights and biases zero, so every activation is
  \<open>sigmoid 0 = 1/2\<close>.
\<close>

theorem compute_mse_and_acc_defined_witness:
  "shuffled (nrows \<lparr>ncols = 1, rows = [[7]]\<rparr>) [0]
   \<and> int (nrows \<lparr>ncols = 1, rows = [[7]]\<rparr>) < 2
   \<and> compute_mse_and_acc
        (NeuralNetMLP_forward \<lparr>num_classes = 1, weight_in = \<lparr>ncols = 1, rows = [[0]]\<rparr>,
           bias_in = [0], weight_out = \<lparr>ncols = 1, rows = [[0]]\<rparr>, bias_out = [0]\<rparr>)
        [0] \<lparr>ncols = 1, rows = [[7]]\<rparr> [0] 1 2
        = Inl UnboundLocalError
   \<and> compute_mse_and_acc
        (NeuralNetMLP_forward \<lparr>num_classes = 1, weight_in = \<lparr>ncols = 1, rows = [[0]]\<rparr>,
           bias_in = [0], weight_out = \<lparr>ncols = 1, rows = [[0]]\<rparr>, bias_out = [0]\<rparr>)
        [0] \<lparr>ncols = 1, rows = [[7]]\<rparr> [0] 1 0
        = Inl ValueError
   \<and> wf_matrix \<lparr>ncols = 1, rows = [[7], [8]]\<rparr>
   \<and> shuffled (nrows \<lparr>ncols = 1, rows = [[7], [8]]\<rparr>) [1, 0]
   \<and> length [0 :: int, 0] = nrows \<lparr>ncols = 1, rows = [[7], [8]]\<rparr>
   \<and> (1 :: nat) \<le> 1 \<and> 1 \<le> nrows \<lparr>ncols = 1, rows = [[7], [8]]\<rparr>
   \<and> compute_mse_and_acc
        (NeuralNetMLP_forward \<lparr>num_classes = 1, weight_in = \<lparr>ncols = 1, rows = [[0]]\<rparr>,
           bias_in = [0], weight_out = \<lparr>ncols = 1, rows = [[0]]\<rparr>, bias_out = [0]\<rparr>)
        [1, 0] \<lparr>ncols = 1, rows = [[7], [8]]\<rparr> [0, 0] 1 (int 1)
        = Inr (1 / 4, 1)"
proof -
  let ?X1 = "\<lparr>ncols = 1, rows = [[7 :: real]]\<rparr>"
  let ?X2 = "\<lparr>ncols = 1, rows = [[7 :: real], [8]]\<rparr>"
  let ?net = "\<lparr>num_classes = 1, weight_in = \<lparr>ncols = 1, rows = [[0]]\<rparr>,
           bias_in = [0], weight_out = \<lparr>ncols = 1, rows = [[0]]\<rparr>, bias_out = [0]\<rparr>"
  let ?fwd = "NeuralNetMLP_forward ?net"
  have a1: "shuffled (nrows ?X1) [0]" by (auto simp: shuffled_def nrows_def)
  have a2: "int (nrows ?X1) < 2" by (simp add: nrows_def)
  have b0: "wf_matrix ?X2" by (simp add: wf_matrix_def)
  have b1: "shuffled (nrows ?X2) [1, 0]" by (auto simp: shuffled_def nrows_def)
  have b2: "length [0 :: int, 0] = nrows ?X2" by (simp add: nrows_def)
  have b3: "(1 :: nat) \<le> 1" by simp
  have b4: "1 \<le> nrows ?X2" by (simp add: nrows_def)
  have b5: "\<forall>t \<in> set [0 :: int, 0]. - int 1 \<le> t \<and> t < int 1" by simp
  have w1: "has_shape (weight_in ?net) 1 1" and w2: "length (bias_in ?net) = 1"
    and w3: "has_shape (weight_out ?net) 1 1" and w4: "length (bias_out ?net) = 1"
    by (simp_all add: has_shape_def nrows_def wf_matrix_def)
  have b6: "\<forall>F. has_shape F 1 (ncols ?X2) \<longrightarrow>
              (\<exists>o_h probas. ?fwd F = Inr (o_h, probas) \<and> has_shape probas 1 1)"
  proof (intro allI impI)
    fix F assume "has_shape F 1 (ncols ?X2)"
    then have "has_shape F 1 1" by simp
    from NeuralNetMLP_forward_shape [OF this w1 w2 w3 w4]
    show "\<exists>o_h probas. ?fwd F = Inr (o_h, probas) \<and> has_shape probas 1 1" by blast
  qed
  note main = compute_mse_and_acc_defined
  have c1: "compute_mse_and_acc ?fwd [0] ?X1 [0] 1 2 = Inl UnboundLocalError"
    using main [of ?X1 "[0]" 2 ?fwd "[0]" 1 0] a1 a2 by blast
  have c2: "compute_mse_and_acc ?fwd [0] ?X1 [0] 1 0 = Inl ValueError"
    using main [of ?X1 "[0]" 0 ?fwd "[0]" 1 0] by blast
  have "\<exists>mse acc. compute_mse_and_acc ?fwd [1, 0] ?X2 [0, 0] 1 (int 1) = Inr (mse, acc)"
    using main [of ?X2 "[1, 0]" "int 1" ?fwd "[0, 0]" 1 1] b0 b1 b2 b3 b4 b5 b6 by blast
  moreover have "compute_mse_and_acc ?fwd [1, 0] ?X2 [0, 0] 1 (int 1) = Inr (1 / 4, 1)"
    by (simp add: compute_mse_and_acc_def minibatch_generator_def py_range_def index_vec_def
        take_rows_def mse_acc_step_def ebind_def argmax_def int_to_onehot_def onehot_row_def
        elementwise_def mat_map_def mat_mean_def nrows_def Let_def eval_nat_numeral upt_rec
        power2_eq_square NeuralNetMLP_forward_def mat_dot_def mat_T_def add_bias_def
        sigmoid_def)
  ultimately show ?thesis using a1 a2 b0 b1 b2 b3 b4 c1 c2 by blast
qed

text \<open>
  The claim as first stated, "a pair is returned whenever \<open>n \<ge> minibatch_size\<close>",
  fails at a negative batch size: with one example and \<open>minibatch_size = -1\<close>
  the precondition holds, \<open>range(0, 3, -1)\<close> is empty and the call fails with
  \<open>UnboundLocalError\<close>.
\<close>

theorem compute_mse_and_acc_negative_batch:
  "- 1 \<le> int (nrows \<lparr>ncols = 1, rows = [[7]]\<rparr>)
   \<and> compute_mse_and_acc
        (NeuralNetMLP_forward \<lparr>num_classes = 1, weight_in = \<lparr>ncols = 1, rows = [[0]]\<rparr>,
           bias_in = [0], weight_out = \<lparr>ncols = 1, rows = [[0]]\<rparr>, bias_out = [0]\<rparr>)
        [0] \<lparr>ncols = 1, rows = [[7]]\<rparr> [0] 1 (- 1)
        = Inl UnboundLocalError"
  by (simp add: compute_mse_and_acc_def minibatch_generator_def py_range_def nrows_def)

end
